(* ===== verification/Prelude.thy ===== *)
theory Prelude
  imports Main "HOL-Library.Word"
begin

text \<open>
  What every component shares: the integer types of the code, the collections of hints,
  and the small routines of the C++ standard library that the sources call everywhere
  (C strings, decimal and hexadecimal formatting, the bytes of a \<open>size_t\<close>).

  Byte strings are \<^typ>\<open>string\<close>, one \<^typ>\<open>char\<close> per byte. \<open>size_t\<close> and
  \<open>unsigned long\<close> are 64 bits wide, as on the LP64 targets; a C \<open>int\<close> that the
  code only passes on (a status code) is an \<^typ>\<open>int\<close>.
\<close>

type_synonym u64 = "64 word"
type_synonym ulong = "64 word"

named_theorems frame_simps \<open>what an operation leaves alone\<close>
named_theorems state_defs \<open>definitions of the operations of a component\<close>

subsection \<open>Strings\<close>

abbreviation CR :: char where
  "CR \<equiv> CHR 0x0D"

abbreviation LF :: char where
  "LF \<equiv> CHR 0x0A"

abbreviation NUL :: char where
  "NUL \<equiv> CHR 0x00"

abbreviation crlf :: string where
  "crlf \<equiv> [CR, LF]"

text \<open>What a callee that reads a NUL-terminated string sees of \<open>s.c_str()\<close>.\<close>

definition c_str :: "string \<Rightarrow> string" where
  "c_str s = takeWhile (\<lambda>c. c \<noteq> NUL) s"

lemma c_str_id: "NUL \<notin> set s \<Longrightarrow> c_str s = s"
  by (induction s) (auto simp: c_str_def)

lemma c_str_append: "NUL \<notin> set s \<Longrightarrow> c_str (s @ t) = s @ c_str t"
  by (induction s) (auto simp: c_str_def)

subsection \<open>Decimal and hexadecimal formatting\<close>

definition digit :: "nat \<Rightarrow> char" where
  "digit d = char_of (48 + d)"

fun dec_nat :: "nat \<Rightarrow> string" where
  "dec_nat n = (if n < 10 then [digit n] else dec_nat (n div 10) @ [digit (n mod 10)])"

declare dec_nat.simps [simp del]

definition fmt_int :: "int \<Rightarrow> string" where
  "fmt_int i = (if i < 0 then CHR ''-'' # dec_nat (nat (- i)) else dec_nat (nat i))"

definition hex_digit :: "nat \<Rightarrow> char" where
  "hex_digit d = char_of (if d < 10 then 48 + d else 55 + d)"

text \<open>\<open>std::format\<close> with \<open>{:02X}\<close> on a byte.\<close>

definition fmt_hex2 :: "8 word \<Rightarrow> string" where
  "fmt_hex2 b = [hex_digit (unat b div 16), hex_digit (unat b mod 16)]"

text \<open>The readers the formatters are checked against.\<close>

definition digit_val :: "char \<Rightarrow> nat" where
  "digit_val c = of_char c - 48"

definition dec_val :: "string \<Rightarrow> nat" where
  "dec_val s = foldl (\<lambda>n c. 10 * n + digit_val c) 0 s"

definition hex_val :: "char \<Rightarrow> nat" where
  "hex_val c = (let n = of_char c :: nat in if n < 58 then n - 48 else n - 55)"

lemma digit_val_digit [simp]: "d < 10 \<Longrightarrow> digit_val (digit d) = d"
  by (simp add: digit_val_def digit_def)

lemma dec_val_snoc: "dec_val (s @ [c]) = 10 * dec_val s + digit_val c"
  by (simp add: dec_val_def)

lemma dec_val_dec_nat [simp]: "dec_val (dec_nat n) = n"
proof (induction n rule: dec_nat.induct)
  case (1 n)
  show ?case
  proof (cases "n < 10")
    case True
    then show ?thesis by (simp add: dec_nat.simps [of n] dec_val_def)
  next
    case False
    with 1 show ?thesis by (simp add: dec_nat.simps [of n] dec_val_snoc)
  qed
qed

lemma dec_nat_inject: "dec_nat m = dec_nat n \<longleftrightarrow> m = n"
  by (metis dec_val_dec_nat)

lemma dec_nat_digits: "c \<in> set (dec_nat n) \<Longrightarrow> 48 \<le> (of_char c :: nat) \<and> (of_char c :: nat) < 58"
proof (induction n rule: dec_nat.induct)
  case (1 n)
  then show ?case
    by (cases "n < 10") (auto simp: dec_nat.simps [of n] digit_def)
qed

lemma dec_nat_nonempty [simp]: "dec_nat n \<noteq> []"
  by (simp add: dec_nat.simps [of n])

lemma hex_val_hex_digit [simp]: "d < 16 \<Longrightarrow> hex_val (hex_digit d) = d"
  by (auto simp: hex_val_def hex_digit_def)

lemma hex_digit_not_colon: "d < 16 \<Longrightarrow> hex_digit d \<noteq> CHR '':''"
proof
  assume "d < 16" "hex_digit d = CHR '':''"
  then have "(of_char (hex_digit d) :: nat) = 58" by simp
  with \<open>d < 16\<close> show False by (auto simp: hex_digit_def split: if_splits)
qed

lemma length_fmt_hex2 [simp]: "length (fmt_hex2 b) = 2"
  by (simp add: fmt_hex2_def)

subsection \<open>The bytes of a \<open>size_t\<close>\<close>

text \<open>
  A wakeup carries the bytes of a \<open>size_t\<close> from a worker to the event loop, which reads
  them back through a \<open>reinterpret_cast\<close>. Both ends run on one machine, taken to be
  little-endian; the read is defined only on a buffer of at least eight bytes.
\<close>

fun le_bytes :: "nat \<Rightarrow> nat \<Rightarrow> string" where
  "le_bytes 0 n = []"
| "le_bytes (Suc k) n = char_of (n mod 256) # le_bytes k (n div 256)"

fun le_val :: "string \<Rightarrow> nat" where
  "le_val [] = 0"
| "le_val (c # cs) = of_char c + 256 * le_val cs"

definition size_t_bytes :: "u64 \<Rightarrow> string" where
  "size_t_bytes w = le_bytes 8 (unat w)"

definition read_size_t :: "string \<Rightarrow> u64 option" where
  "read_size_t s = (if length s < 8 then None else Some (of_nat (le_val (take 8 s))))"

lemma length_le_bytes [simp]: "length (le_bytes k n) = k"
  by (induction k arbitrary: n) auto

lemma le_val_le_bytes: "le_val (le_bytes k n) = n mod 256 ^ k"
proof (induction k arbitrary: n)
  case 0
  then show ?case by simp
next
  case (Suc k)
  have "n mod 256 + 256 * (n div 256 mod 256 ^ k) = n mod (256 * 256 ^ k)"
    by (metis add.commute mod_mult2_eq)
  with Suc show ?case by simp
qed

lemma read_size_t_bytes [simp]: "read_size_t (size_t_bytes w) = Some w"
proof -
  have "unat w < 2 ^ 64" using unsigned_less [of w] by simp
  then have "le_val (le_bytes 8 (unat w)) = unat w" by (simp add: le_val_le_bytes)
  then show ?thesis by (simp add: read_size_t_def size_t_bytes_def)
qed

subsection \<open>Sequences of operations\<close>

text \<open>Running a list of operations on a state and collecting what they emit.\<close>

fun run_ops :: "('a \<Rightarrow> 's \<Rightarrow> 's \<times> 'o list) \<Rightarrow> 'a list \<Rightarrow> 's \<Rightarrow> 's \<times> 'o list" where
  "run_ops f [] s = (s, [])"
| "run_ops f (a # as) s =
     (let (s1, o1) = f a s; (s2, o2) = run_ops f as s1 in (s2, o1 @ o2))"

lemma run_ops_append:
  "run_ops f (as @ bs) s =
     (let (s1, o1) = run_ops f as s; (s2, o2) = run_ops f bs s1 in (s2, o1 @ o2))"
  by (induction as arbitrary: s) (auto simp: split_def Let_def)

lemma run_ops_invariant:
  assumes "\<And>a s. P s \<Longrightarrow> P (fst (f a s))" and "P s"
  shows "P (fst (run_ops f as s))"
  using assms(2) by (induction as arbitrary: s) (auto simp: split_def Let_def assms(1))

lemma take_drop_Cons:
  assumes "drop n xs = d # ds"
  shows "take (Suc n) xs = take n xs @ [d]" "drop (Suc n) xs = ds"
proof -
  have "n < length xs" using assms by (cases "n < length xs") auto
  with nth_via_drop [OF assms] show "take (Suc n) xs = take n xs @ [d]" by (simp add: take_Suc_conv_app_nth)
  have "drop (Suc n) xs = tl (drop n xs)" by (simp add: drop_Suc tl_drop)
  with assms show "drop (Suc n) xs = ds" by simp
qed

end
