(* ===== verification/Mongoose.thy ===== *)
theory Mongoose
  imports Prelude
begin

text \<open>
  The boundary to code that is not part of the repository: the mongoose library, the TLS
  libraries and the operating system. Their data types appear as the fields the code reads
  or writes. What the code calls for its effect is recorded as a value of \<open>mg_call\<close>, in
  the order of the calls; what it calls for a result is a field of \<open>mg_env\<close>, a parameter
  of every definition that uses it. Logging (\<open>MG_ERROR\<close>, \<open>MG_DEBUG\<close>) has no effect on
  the state and is left out.
\<close>

subsection \<open>Data\<close>

text \<open>A pointer and a length; the null pointer is address 0.\<close>

record mg_str =
  ms_buf :: u64
  ms_len :: u64

definition mg_null :: mg_str where
  "mg_null = \<lparr>ms_buf = 0, ms_len = 0\<rparr>"

record mg_http_message =
  hm_method :: mg_str
  hm_uri :: mg_str
  hm_query :: mg_str
  hm_proto :: mg_str
  hm_headers :: "(mg_str \<times> mg_str) list"
  hm_body :: mg_str
  hm_message :: mg_str

record mg_addr =
  ad_ip :: "8 word list"
  ad_port :: "16 word"
  ad_is_ip6 :: bool

record mg_tls_opts =
  to_ca :: mg_str
  to_cert :: mg_str
  to_key :: mg_str

record mg_http_serve_opts =
  so_root_dir :: "string option"
  so_extra_headers :: "string option"
  so_mime_types :: "string option"

text \<open>
  The peer certificate as the TLS library presents it to the code: the printed names, the
  serial number, the validity and the SHA-256 digest, each absent where the library call
  reports a failure.
\<close>

record x509 =
  x_subject :: string
  x_issuer :: string
  x_not_before :: "int option"
  x_not_after :: "int option"
  x_serial_hex :: string
  x_sha256 :: "8 word list"

record tm =
  tm_year :: int
  tm_mon :: int
  tm_mday :: int
  tm_hour :: int
  tm_min :: int
  tm_sec :: int
  tm_isdst :: int

record mbed_time =
  mt_year :: int
  mt_mon :: int
  mt_day :: int
  mt_hour :: int
  mt_min :: int
  mt_sec :: int

record mbed_crt =
  mc_subject :: "string option"
  mc_issuer :: "string option"
  mc_serial :: "string option"
  mc_valid_from :: mbed_time
  mc_valid_to :: mbed_time
  mc_sha256 :: "8 word list option"

text \<open>
  What \<open>conn->tls\<close> leads to in each build: null without TLS, an OpenSSL session that may
  be missing (\<open>tls->ssl\<close>), may have no peer certificate and may fail to allocate a BIO, a
  mbedTLS session, or the built-in TLS, which the code does not look into.
\<close>

datatype tls_peer =
    TlsNull
  | TlsBuiltin
  | TlsOpenSSL "x509 option option" bool
  | TlsMbed "mbed_crt option"

datatype conn_fn = EventManagerHandler | EventManagerContextHandler
datatype conn_data = FnNull | FnEndpoint nat | FnContext nat

record mg_connection =
  c_id :: ulong
  c_rem :: mg_addr
  c_is_tls :: bool
  c_tls :: tls_peer
  c_send_len :: u64
  c_data0 :: char
  c_fn :: conn_fn
  c_fn_data :: conn_data

datatype mg_event =
    MG_EV_ACCEPT
  | MG_EV_POLL
  | MG_EV_TLS_HS
  | MG_EV_HTTP_MSG mg_http_message
  | MG_EV_WAKEUP string
  | MG_EV_WRITE
  | MG_EV_CLOSE
  | MG_EV_OTHER int

subsection \<open>Calls\<close>

text \<open>
  The first argument is the connection. \<open>MgHttpReply\<close> holds the code, the header block
  as the callee reads it (a C string) and the body with the length passed for it.
\<close>

datatype mg_call =
    MgHttpReply ulong int string string
  | MgSend ulong string
  | MgHttpWriteChunk ulong string
  | MgHttpServeDir ulong mg_http_serve_opts
  | MgHttpServeFile ulong string mg_http_serve_opts
  | MgTlsInit ulong mg_tls_opts
  | MgWakeup ulong string

fun is_wakeup :: "mg_call \<Rightarrow> bool" where
  "is_wakeup (MgWakeup c d) \<longleftrightarrow> True"
| "is_wakeup _ \<longleftrightarrow> False"

text \<open>A wakeup carries the bytes of a \<open>size_t\<close>.\<close>

fun wakeup_ok :: "mg_call \<Rightarrow> bool" where
  "wakeup_ok (MgWakeup c d) \<longleftrightarrow> (\<exists>rid. d = size_t_bytes rid)"
| "wakeup_ok _ \<longleftrightarrow> True"

lemma wakeup_ok_net: "\<not> is_wakeup k \<Longrightarrow> wakeup_ok k"
  by (cases k) simp_all

text \<open>What reaches the client: every call but the wakeups.\<close>

definition net_calls :: "mg_call list \<Rightarrow> mg_call list" where
  "net_calls = filter (\<lambda>k. \<not> is_wakeup k)"

lemma net_calls_simps [simp]:
  "net_calls [] = []"
  "net_calls (k # ks) = (if is_wakeup k then net_calls ks else k # net_calls ks)"
  "net_calls (ks @ ks') = net_calls ks @ net_calls ks'"
  by (simp_all add: net_calls_def)

subsection \<open>Results of external functions\<close>

text \<open>
  \<open>env_mem\<close> is the memory views are read from; \<open>env_match uri pattern groups\<close> is
  \<open>mg_match\<close>, with the capture array it leaves; \<open>env_get\<close> calls the user's producer,
  whose own state is the type variable; \<open>env_wakeup\<close> is the result of \<open>mg_wakeup\<close> and
  \<open>env_mgr_alive\<close> of locking the weak pointer to the manager.
\<close>

record 'p mg_env =
  env_mem :: "u64 \<Rightarrow> char"
  env_match :: "mg_str \<Rightarrow> string \<Rightarrow> mg_str list \<Rightarrow> bool \<times> mg_str list"
  env_get_header :: "mg_http_message \<Rightarrow> string \<Rightarrow> mg_str option"
  env_wakeup :: "ulong \<Rightarrow> string \<Rightarrow> bool"
  env_mgr_alive :: bool
  env_io_size :: u64
  env_get :: "'p \<Rightarrow> string option \<times> 'p"
  env_inet_ntop :: "bool \<Rightarrow> 8 word list \<Rightarrow> string"
  env_ntohs :: "16 word \<Rightarrow> 16 word"
  env_timegm :: "tm \<Rightarrow> int"

text \<open>The bytes a view covers.\<close>

definition str_of :: "(u64 \<Rightarrow> char) \<Rightarrow> mg_str \<Rightarrow> string" where
  "str_of mem s = map (\<lambda>i. mem (ms_buf s + of_nat i)) [0..<unat (ms_len s)]"

lemma length_str_of [simp]: "length (str_of mem s) = unat (ms_len s)"
  by (simp add: str_of_def)

lemma str_of_null [simp]: "str_of mem mg_null = []"
  by (simp add: str_of_def mg_null_def)

end
