(* ===== verification/Tls_Material.thy ===== *)
theory Tls_Material
  imports Mongoose
begin

text \<open>
  The TLS members of \<open>http::endpoint\<close> and its destructor: certificate, key and authority
  either duplicated on the heap (the overloads taking \<open>std::string\<close>) or borrowed from the
  caller (those taking \<open>std::string_view\<close>), with one flag for all three.

  The heap maps the address of each live block to its content. \<open>mg_strdup\<close> is external:
  an argument \<open>dup\<close>, of which \<open>strdup_spec\<close> is the documented behaviour. \<open>heap_free\<close> is
  the \<open>free\<close> of C: nothing for the null pointer, undefined (\<open>None\<close>) for an address that
  is not a live block.
\<close>

type_synonym heap = "u64 \<rightharpoonup> string"
type_synonym strdup = "heap \<Rightarrow> string \<Rightarrow> mg_str \<times> heap"

definition heap_free :: "u64 \<Rightarrow> heap \<Rightarrow> heap option" where
  "heap_free p h = (if p = 0 then Some h else if h p = None then None else Some (h(p := None)))"

text \<open>A duplicate is a fresh block, or null with length 0 (nothing to copy, or no memory).\<close>

definition strdup_spec :: "strdup \<Rightarrow> bool" where
  "strdup_spec dup \<longleftrightarrow>
     (\<forall>h s. dup h s = (mg_null, h) \<or>
       (\<exists>p. p \<noteq> 0 \<and> h p = None \<and> s \<noteq> '''' \<and> dup h s = (\<lparr>ms_buf = p, ms_len = of_nat (length s)\<rparr>, h(p \<mapsto> s))))"

record tls_material =
  tl_ca :: mg_str
  tl_cert :: mg_str
  tl_key :: mg_str
  tl_alloc :: bool

definition tls_material_new :: tls_material where
  "tls_material_new = \<lparr>tl_ca = mg_null, tl_cert = mg_null, tl_key = mg_null, tl_alloc = False\<rparr>"

definition is_mtls :: "tls_material \<Rightarrow> bool" where
  "is_mtls t \<longleftrightarrow> ms_len (tl_ca t) > 0"

definition use_tls_owned :: "strdup \<Rightarrow> string \<Rightarrow> string \<Rightarrow> tls_material \<times> heap \<Rightarrow> tls_material \<times> heap" where
  "use_tls_owned dup cert key th =
     (let (t, h) = th;
          (c, h1) = dup h cert;
          (k, h2) = dup h1 key
      in (t\<lparr>tl_cert := c, tl_key := k, tl_alloc := True\<rparr>, h2))"

definition use_mtls_owned ::
  "strdup \<Rightarrow> string \<Rightarrow> string \<Rightarrow> string \<Rightarrow> tls_material \<times> heap \<Rightarrow> tls_material \<times> heap" where
  "use_mtls_owned dup ca cert key th =
     (let (t, h) = th;
          (a, h1) = dup h ca;
          (c, h2) = dup h1 cert;
          (k, h3) = dup h2 key
      in (t\<lparr>tl_ca := a, tl_cert := c, tl_key := k, tl_alloc := True\<rparr>, h3))"

definition use_tls_view :: "mg_str \<Rightarrow> mg_str \<Rightarrow> tls_material \<Rightarrow> tls_material" where
  "use_tls_view cert key t = t\<lparr>tl_cert := cert, tl_key := key\<rparr>"

definition use_mtls_view :: "mg_str \<Rightarrow> mg_str \<Rightarrow> mg_str \<Rightarrow> tls_material \<Rightarrow> tls_material" where
  "use_mtls_view ca cert key t = t\<lparr>tl_ca := ca, tl_cert := cert, tl_key := key\<rparr>"

text \<open>The destructor.\<close>

definition endpoint_destroy :: "tls_material \<times> heap \<Rightarrow> (tls_material \<times> heap) option" where
  "endpoint_destroy th =
     (let (t, h) = th in
      if tl_alloc t then
        (case (if is_mtls t then heap_free (ms_buf (tl_ca t)) h else Some h) of
           None \<Rightarrow> None
         | Some h1 \<Rightarrow>
             (case heap_free (ms_buf (tl_cert t)) h1 of
                None \<Rightarrow> None
              | Some h2 \<Rightarrow>
                  (case heap_free (ms_buf (tl_key t)) h2 of
                     None \<Rightarrow> None
                   | Some h3 \<Rightarrow> Some (t\<lparr>tl_alloc := False\<rparr>, h3))))
      else Some (t, h))"

text \<open>\<open>handle_secure\<close>: the options given to \<open>mg_tls_init\<close>.\<close>

definition handle_secure :: "tls_material \<Rightarrow> mg_connection \<Rightarrow> mg_call list" where
  "handle_secure t conn =
     (if \<not> c_is_tls conn \<or> ms_len (tl_cert t) = 0 \<or> ms_len (tl_key t) = 0 then []
      else
        let opts = \<lparr>to_ca = mg_null, to_cert = mg_null, to_key = mg_null\<rparr>;
            opts1 = (if is_mtls t then opts\<lparr>to_ca := tl_ca t\<rparr> else opts);
            opts2 = opts1\<lparr>to_cert := tl_cert t, to_key := tl_key t\<rparr>
        in [MgTlsInit (c_id conn) opts2])"

subsection \<open>Sequences of calls\<close>

datatype tls_op =
    OwnTls string string
  | OwnMtls string string string
  | ViewTls mg_str mg_str
  | ViewMtls mg_str mg_str mg_str

fun tls_do :: "strdup \<Rightarrow> tls_op \<Rightarrow> tls_material \<times> heap \<Rightarrow> tls_material \<times> heap" where
  "tls_do dup (OwnTls cert key) th = use_tls_owned dup cert key th"
| "tls_do dup (OwnMtls ca cert key) th = use_mtls_owned dup ca cert key th"
| "tls_do dup (ViewTls cert key) th = (use_tls_view cert key (fst th), snd th)"
| "tls_do dup (ViewMtls ca cert key) th = (use_mtls_view ca cert key (fst th), snd th)"

fun owning :: "tls_op \<Rightarrow> bool" where
  "owning (OwnTls _ _) \<longleftrightarrow> True"
| "owning (OwnMtls _ _ _) \<longleftrightarrow> True"
| "owning _ \<longleftrightarrow> False"

subsection \<open>Ownership\<close>

text \<open>\<open>owned h s\<close>: null, or a live block.\<close>

definition owned :: "heap \<Rightarrow> mg_str \<Rightarrow> bool" where
  "owned h s \<longleftrightarrow> ms_buf s = 0 \<or> h (ms_buf s) \<noteq> None"

definition apart :: "mg_str \<Rightarrow> mg_str \<Rightarrow> bool" where
  "apart s t \<longleftrightarrow> ms_buf s = 0 \<or> ms_buf t = 0 \<or> ms_buf s \<noteq> ms_buf t"

definition owns_all :: "tls_material \<times> heap \<Rightarrow> bool" where
  "owns_all th \<longleftrightarrow>
     (let (t, h) = th in
      h 0 = None \<and>
      owned h (tl_ca t) \<and> owned h (tl_cert t) \<and> owned h (tl_key t) \<and>
      apart (tl_ca t) (tl_cert t) \<and> apart (tl_ca t) (tl_key t) \<and> apart (tl_cert t) (tl_key t))"

lemma strdup_cases:
  assumes "strdup_spec dup" "dup h s = (r, h')"
  obtains (null) "r = mg_null" "h' = h"
  | (block) p where "p \<noteq> 0" "h p = None" "ms_buf r = p" "h' = h(p \<mapsto> s)" "ms_len r = of_nat (length s)" "s \<noteq> ''''"
proof -
  from assms(1) have "dup h s = (mg_null, h) \<or>
    (\<exists>p. p \<noteq> 0 \<and> h p = None \<and> s \<noteq> '''' \<and> dup h s = (\<lparr>ms_buf = p, ms_len = of_nat (length s)\<rparr>, h(p \<mapsto> s)))"
    unfolding strdup_spec_def by blast
  with assms(2) show thesis by (auto intro: that)
qed

text \<open>What a duplication gives, whichever way it went.\<close>

lemma strdup_owned:
  assumes "strdup_spec dup" "dup h s = (r, h')" "h 0 = None"
  shows "owned h' r" and "h' 0 = None" and "owned h x \<Longrightarrow> owned h' x"
    and "owned h x \<Longrightarrow> apart x r" and "apart r x \<longleftrightarrow> apart x r"
proof -
  from assms(1,2) show "owned h' r" and "h' 0 = None" and "owned h x \<Longrightarrow> owned h' x"
    and "owned h x \<Longrightarrow> apart x r"
    by (cases rule: strdup_cases; use assms(3) in \<open>auto simp: owned_def apart_def mg_null_def\<close>)+
  show "apart r x \<longleftrightarrow> apart x r" by (auto simp: apart_def)
qed

lemma owns_all_new: "h 0 = None \<Longrightarrow> owns_all (tls_material_new, h)"
  by (simp add: owns_all_def tls_material_new_def owned_def apart_def mg_null_def)

lemma owns_all_do:
  assumes spec: "strdup_spec dup" and "owning op" and inv: "owns_all th"
  shows "owns_all (tls_do dup op th)"
proof -
  obtain t h where th: "th = (t, h)" by fastforce
  show ?thesis
  proof (cases op)
    case (OwnTls cert key)
    obtain c h1 where c: "dup h cert = (c, h1)" by fastforce
    obtain k h2 where k: "dup h1 key = (k, h2)" by fastforce
    from inv th have h: "h 0 = None" "owned h (tl_ca t)" by (simp_all add: owns_all_def)
    note C = strdup_owned [OF spec c h(1)]
    note K = strdup_owned [OF spec k C(2)]
    have "owned h2 (tl_ca t)" "owned h2 c" "owned h2 k" "h2 0 = None"
      "apart (tl_ca t) c" "apart (tl_ca t) k" "apart c k"
      using C K h by blast+
    with OwnTls th c k show ?thesis by (simp add: use_tls_owned_def owns_all_def)
  next
    case (OwnMtls ca cert key)
    obtain a h0 where a: "dup h ca = (a, h0)" by fastforce
    obtain c h1 where c: "dup h0 cert = (c, h1)" by fastforce
    obtain k h2 where k: "dup h1 key = (k, h2)" by fastforce
    from inv th have h: "h 0 = None" by (simp add: owns_all_def)
    note A = strdup_owned [OF spec a h]
    note C = strdup_owned [OF spec c A(2)]
    note K = strdup_owned [OF spec k C(2)]
    have "owned h2 a" "owned h2 c" "owned h2 k" "h2 0 = None" "apart a c" "apart a k" "apart c k"
      using A C K by blast+
    with OwnMtls th a c k show ?thesis by (simp add: use_mtls_owned_def owns_all_def)
  qed (use assms in auto)
qed

lemma owns_all_ops:
  assumes "strdup_spec dup" "list_all owning ops" "owns_all th"
  shows "owns_all (fold (tls_do dup) ops th)"
  using assms(2,3) by (induction ops arbitrary: th) (simp_all add: owns_all_do [OF assms(1)])

text \<open>The destructor frees live blocks only.\<close>

lemma heap_free_owned: "owned h s \<Longrightarrow> heap_free (ms_buf s) h = Some (if ms_buf s = 0 then h else h(ms_buf s := None))"
  by (auto simp: heap_free_def owned_def)

lemma owned_after_free: "owned h s \<Longrightarrow> apart x s \<Longrightarrow> owned (if ms_buf x = 0 then h else h(ms_buf x := None)) s"
  by (auto simp: owned_def apart_def)

lemma endpoint_destroy_owned:
  assumes "owns_all (t, h)"
  shows "\<exists>h'. endpoint_destroy (t, h) = Some (t\<lparr>tl_alloc := False\<rparr>, h') \<and>
    (\<forall>p. h' p = None \<or> h' p = h p)"
proof -
  note o = assms [unfolded owns_all_def Let_def case_prod_conv]
  define h1 where "h1 = (if is_mtls t \<and> ms_buf (tl_ca t) \<noteq> 0 then h(ms_buf (tl_ca t) := None) else h)"
  have f1: "(if is_mtls t then heap_free (ms_buf (tl_ca t)) h else Some h) = Some h1"
    using o by (simp add: h1_def heap_free_owned)
  have o1: "owned h1 (tl_cert t)" "owned h1 (tl_key t)"
    using o by (auto simp: h1_def owned_def apart_def)
  define h2 where "h2 = (if ms_buf (tl_cert t) = 0 then h1 else h1(ms_buf (tl_cert t) := None))"
  have o2: "owned h2 (tl_key t)" unfolding h2_def using o o1 by (intro owned_after_free) auto
  define h3 where "h3 = (if ms_buf (tl_key t) = 0 then h2 else h2(ms_buf (tl_key t) := None))"
  have "\<forall>p. h3 p = None \<or> h3 p = h p" by (auto simp: h3_def h2_def h1_def)
  moreover have "endpoint_destroy (t, h) = Some (t\<lparr>tl_alloc := False\<rparr>, if tl_alloc t then h3 else h)"
    using f1 o1 o2 by (simp add: endpoint_destroy_def heap_free_owned flip: h2_def h3_def)
  ultimately show ?thesis by auto
qed

end
