(* ===== verification/Request.thy ===== *)
theory Request
  imports Mongoose
begin

text \<open>
  \<open>http/request.cpp\<close> and \<open>http/async_request.cpp\<close>. A request is a set of views into the
  buffer mongoose parsed the message from, valid only during the handler. \<open>to_async\<close>
  duplicates that buffer and moves every view by the distance between the two copies.

  The weak pointer to the certificate is a reference into the store of certificates (see
  \<open>World\<close>). Accessors take the memory the views are read from.
\<close>

subsection \<open>The class \<open>request\<close>\<close>

record request =
  rq_msg :: mg_http_message
  rq_groups :: "mg_str list"
  rq_ip :: string
  rq_tls_cert_info :: "nat option"

definition request_new ::
  "mg_http_message \<Rightarrow> string \<Rightarrow> nat option \<Rightarrow> mg_str list \<Rightarrow> request" where
  "request_new msg ip cert groups =
     \<lparr>rq_msg = msg, rq_groups = groups, rq_ip = ip, rq_tls_cert_info = cert\<rparr>"

definition request_get_remote_ip :: "request \<Rightarrow> string" where
  "request_get_remote_ip r = rq_ip r"

definition request_get_tls_cert_info :: "request \<Rightarrow> nat option" where
  "request_get_tls_cert_info r = rq_tls_cert_info r"

definition request_method :: "(u64 \<Rightarrow> char) \<Rightarrow> request \<Rightarrow> string" where
  "request_method mem r = str_of mem (hm_method (rq_msg r))"

definition request_uri :: "(u64 \<Rightarrow> char) \<Rightarrow> request \<Rightarrow> string" where
  "request_uri mem r = str_of mem (hm_uri (rq_msg r))"

definition request_get_param :: "(u64 \<Rightarrow> char) \<Rightarrow> nat \<Rightarrow> request \<Rightarrow> string option" where
  "request_get_param mem index r =
     (if index \<ge> length (rq_groups r) then None else Some (str_of mem (rq_groups r ! index)))"

definition request_query :: "(u64 \<Rightarrow> char) \<Rightarrow> request \<Rightarrow> string" where
  "request_query mem r = str_of mem (hm_query (rq_msg r))"

definition request_version :: "(u64 \<Rightarrow> char) \<Rightarrow> request \<Rightarrow> string" where
  "request_version mem r = str_of mem (hm_proto (rq_msg r))"

definition request_get_header :: "'p mg_env \<Rightarrow> string \<Rightarrow> request \<Rightarrow> string option" where
  "request_get_header E name r =
     (case env_get_header E (rq_msg r) (c_str name) of
        None \<Rightarrow> None
      | Some header \<Rightarrow> Some (str_of (env_mem E) header))"

definition request_body :: "(u64 \<Rightarrow> char) \<Rightarrow> request \<Rightarrow> string" where
  "request_body mem r = str_of mem (hm_body (rq_msg r))"

subsection \<open>The class \<open>async_request\<close>\<close>

record async_request =
  aq_msg :: mg_http_message
  aq_groups :: "mg_str list"
  aq_ip :: string
  aq_tls_cert_info :: "nat option"

definition rebase :: "u64 \<Rightarrow> mg_str \<Rightarrow> mg_str" where
  "rebase delta str =
     (if ms_buf str = 0 then \<lparr>ms_buf = 0, ms_len = 0\<rparr>
      else \<lparr>ms_buf = ms_buf str + delta, ms_len = ms_len str\<rparr>)"

text \<open>
  The loop over the header array. It stops after the first null name; the entries behind
  it keep the zeroes of the freshly initialised message.
\<close>

fun rebase_headers :: "u64 \<Rightarrow> (mg_str \<times> mg_str) list \<Rightarrow> (mg_str \<times> mg_str) list" where
  "rebase_headers delta [] = []"
| "rebase_headers delta ((name, value) # headers) =
     (let m_name = rebase delta name;
          m_value = rebase delta value
      in if ms_buf m_name = 0
         then (m_name, m_value) # replicate (length headers) (mg_null, mg_null)
         else (m_name, m_value) # rebase_headers delta headers)"

text \<open>\<open>dup\<close> is what \<open>mg_strdup(msg->message)\<close> returned.\<close>

definition async_request_new ::
  "mg_str \<Rightarrow> mg_http_message \<Rightarrow> mg_str list \<Rightarrow> string \<Rightarrow> nat option \<Rightarrow> async_request" where
  "async_request_new dup msg groups ip cert =
     (let delta = ms_buf dup - ms_buf (hm_message msg) in
      \<lparr>aq_msg =
         \<lparr>hm_method = rebase delta (hm_method msg),
          hm_uri = rebase delta (hm_uri msg),
          hm_query = rebase delta (hm_query msg),
          hm_proto = rebase delta (hm_proto msg),
          hm_headers = rebase_headers delta (hm_headers msg),
          hm_body = rebase delta (hm_body msg),
          hm_message = dup\<rparr>,
       aq_groups = map (rebase delta) groups,
       aq_ip = ip,
       aq_tls_cert_info = cert\<rparr>)"

definition request_to_async :: "mg_str \<Rightarrow> request \<Rightarrow> async_request" where
  "request_to_async dup r =
     async_request_new dup (rq_msg r) (rq_groups r) (rq_ip r) (rq_tls_cert_info r)"

definition async_request_get_remote_ip :: "async_request \<Rightarrow> string" where
  "async_request_get_remote_ip r = aq_ip r"

definition async_request_get_tls_cert_info :: "async_request \<Rightarrow> nat option" where
  "async_request_get_tls_cert_info r = aq_tls_cert_info r"

definition async_request_method :: "(u64 \<Rightarrow> char) \<Rightarrow> async_request \<Rightarrow> string" where
  "async_request_method mem r = str_of mem (hm_method (aq_msg r))"

definition async_request_uri :: "(u64 \<Rightarrow> char) \<Rightarrow> async_request \<Rightarrow> string" where
  "async_request_uri mem r = str_of mem (hm_uri (aq_msg r))"

definition async_request_get_param :: "(u64 \<Rightarrow> char) \<Rightarrow> nat \<Rightarrow> async_request \<Rightarrow> string option" where
  "async_request_get_param mem index r =
     (if index \<ge> length (aq_groups r) then None else Some (str_of mem (aq_groups r ! index)))"

definition async_request_query :: "(u64 \<Rightarrow> char) \<Rightarrow> async_request \<Rightarrow> string" where
  "async_request_query mem r = str_of mem (hm_query (aq_msg r))"

definition async_request_version :: "(u64 \<Rightarrow> char) \<Rightarrow> async_request \<Rightarrow> string" where
  "async_request_version mem r = str_of mem (hm_proto (aq_msg r))"

definition async_request_get_header :: "'p mg_env \<Rightarrow> string \<Rightarrow> async_request \<Rightarrow> string option" where
  "async_request_get_header E name r =
     (case env_get_header E (aq_msg r) (c_str name) of
        None \<Rightarrow> None
      | Some header \<Rightarrow> Some (str_of (env_mem E) header))"

definition async_request_body :: "(u64 \<Rightarrow> char) \<Rightarrow> async_request \<Rightarrow> string" where
  "async_request_body mem r = str_of mem (hm_body (aq_msg r))"

subsection \<open>Views into the message\<close>

text \<open>A view is null and empty, or lies inside the message buffer.\<close>

definition inside :: "mg_str \<Rightarrow> mg_str \<Rightarrow> bool" where
  "inside message s \<longleftrightarrow>
     s = mg_null \<or>
     ms_buf s \<noteq> 0 \<and>
     unat (ms_buf s - ms_buf message) + unat (ms_len s) \<le> unat (ms_len message)"

text \<open>The memory after the duplication holds the message's bytes at the duplicate.\<close>

definition duplicated :: "(u64 \<Rightarrow> char) \<Rightarrow> (u64 \<Rightarrow> char) \<Rightarrow> mg_str \<Rightarrow> mg_str \<Rightarrow> bool" where
  "duplicated mem mem' message dup \<longleftrightarrow>
     (\<forall>i < unat (ms_len message). mem' (ms_buf dup + of_nat i) = mem (ms_buf message + of_nat i))"

lemma str_of_rebase:
  assumes ins: "inside message s" and dup: "duplicated mem mem' message dup"
  shows "str_of mem' (rebase (ms_buf dup - ms_buf message) s) = str_of mem s"
proof (cases "ms_buf s = 0")
  case True
  with ins have "s = mg_null" by (auto simp: inside_def)
  then show ?thesis by (simp add: rebase_def mg_null_def str_of_def)
next
  case False
  define k where "k = unat (ms_buf s - ms_buf message)"
  from ins False have k: "k + unat (ms_len s) \<le> unat (ms_len message)"
    by (auto simp: inside_def k_def mg_null_def)
  have buf: "ms_buf s = ms_buf message + of_nat k" by (simp add: k_def)
  have "mem' (ms_buf s + (ms_buf dup - ms_buf message) + of_nat i) = mem (ms_buf s + of_nat i)"
    if "i < unat (ms_len s)" for i
  proof -
    have "k + i < unat (ms_len message)" using k that by simp
    with dup have "mem' (ms_buf dup + of_nat (k + i)) = mem (ms_buf message + of_nat (k + i))"
      unfolding duplicated_def by blast
    then show ?thesis by (simp add: buf algebra_simps)
  qed
  with False show ?thesis by (auto simp: rebase_def str_of_def)
qed

text \<open>The headers a lookup can reach: those before the first null name.\<close>

definition live_headers :: "(mg_str \<times> mg_str) list \<Rightarrow> (mg_str \<times> mg_str) list" where
  "live_headers hs = takeWhile (\<lambda>(n, v). ms_buf n \<noteq> 0) hs"

lemma live_headers_rebase:
  assumes "list_all (\<lambda>(n, v). ms_buf n \<noteq> 0 \<longrightarrow> ms_buf n + delta \<noteq> 0) hs"
  shows "live_headers (rebase_headers delta hs) =
    map (\<lambda>(n, v). (rebase delta n, rebase delta v)) (live_headers hs)"
  using assms
proof (induction delta hs rule: rebase_headers.induct)
  case (1 delta)
  then show ?case by (simp add: live_headers_def)
next
  case (2 delta name val headers)
  show ?case
  proof (cases "ms_buf name = 0")
    case True
    then show ?thesis by (simp add: live_headers_def rebase_def Let_def)
  next
    case False
    with 2 have nz: "ms_buf (rebase delta name) \<noteq> 0" by (simp add: rebase_def)
    with 2 False show ?thesis by (simp add: live_headers_def Let_def)
  qed
qed

lemma length_rebase_headers [simp]: "length (rebase_headers delta hs) = length hs"
  by (induction delta hs rule: rebase_headers.induct) (auto simp: Let_def)

end
