(* ===== verification/Common.thy ===== *)
theory Common
  imports Mongoose
begin

text \<open>
  \<open>http/internal/common.hpp\<close> and \<open>http/common.cpp\<close>: the status codes, their reason
  phrases and the textual form of a remote address.
\<close>

datatype status_code =
    SC_invalid
  | SC_continue
  | SC_switching_protocols
  | SC_processing
  | SC_early_hints
  | SC_ok
  | SC_created
  | SC_accepted
  | SC_non_authoritative_information
  | SC_no_content
  | SC_reset_content
  | SC_partial_content
  | SC_multi_status
  | SC_already_reported
  | SC_im_used
  | SC_multiple_choices
  | SC_moved_permanently
  | SC_found
  | SC_see_other
  | SC_not_modified
  | SC_use_proxy
  | SC_temporary_redirect
  | SC_permanent_redirect
  | SC_bad_request
  | SC_unauthorized
  | SC_payment_required
  | SC_forbidden
  | SC_not_found
  | SC_method_not_allowed
  | SC_not_acceptable
  | SC_proxy_authentication_required
  | SC_request_timeout
  | SC_conflict
  | SC_gone
  | SC_length_required
  | SC_precondition_failed
  | SC_content_too_large
  | SC_payload_too_large
  | SC_uri_too_long
  | SC_unsupported_media_type
  | SC_range_not_satisfiable
  | SC_expectation_failed
  | SC_im_a_teapot
  | SC_misdirected_request
  | SC_unprocessable_content
  | SC_unprocessable_entity
  | SC_locked
  | SC_failed_dependency
  | SC_too_early
  | SC_upgrade_required
  | SC_precondition_required
  | SC_too_many_requests
  | SC_request_header_fields_too_large
  | SC_unavailable_for_legal_reasons
  | SC_internal_server_error
  | SC_not_implemented
  | SC_bad_gateway
  | SC_service_unavailable
  | SC_gateway_timeout
  | SC_http_version_not_supported
  | SC_variant_also_negotiates
  | SC_insufficient_storage
  | SC_loop_detected
  | SC_not_extended
  | SC_network_authentication_required
  | SC_max

text \<open>\<open>static_cast<int>(code)\<close>.\<close>

primrec status_int :: "status_code \<Rightarrow> int" where
  "status_int SC_invalid = -1"
| "status_int SC_continue = 100"
| "status_int SC_switching_protocols = 101"
| "status_int SC_processing = 102"
| "status_int SC_early_hints = 103"
| "status_int SC_ok = 200"
| "status_int SC_created = 201"
| "status_int SC_accepted = 202"
| "status_int SC_non_authoritative_information = 203"
| "status_int SC_no_content = 204"
| "status_int SC_reset_content = 205"
| "status_int SC_partial_content = 206"
| "status_int SC_multi_status = 207"
| "status_int SC_already_reported = 208"
| "status_int SC_im_used = 226"
| "status_int SC_multiple_choices = 300"
| "status_int SC_moved_permanently = 301"
| "status_int SC_found = 302"
| "status_int SC_see_other = 303"
| "status_int SC_not_modified = 304"
| "status_int SC_use_proxy = 305"
| "status_int SC_temporary_redirect = 307"
| "status_int SC_permanent_redirect = 308"
| "status_int SC_bad_request = 400"
| "status_int SC_unauthorized = 401"
| "status_int SC_payment_required = 402"
| "status_int SC_forbidden = 403"
| "status_int SC_not_found = 404"
| "status_int SC_method_not_allowed = 405"
| "status_int SC_not_acceptable = 406"
| "status_int SC_proxy_authentication_required = 407"
| "status_int SC_request_timeout = 408"
| "status_int SC_conflict = 409"
| "status_int SC_gone = 410"
| "status_int SC_length_required = 411"
| "status_int SC_precondition_failed = 412"
| "status_int SC_content_too_large = 413"
| "status_int SC_payload_too_large = 413"
| "status_int SC_uri_too_long = 414"
| "status_int SC_unsupported_media_type = 415"
| "status_int SC_range_not_satisfiable = 416"
| "status_int SC_expectation_failed = 417"
| "status_int SC_im_a_teapot = 418"
| "status_int SC_misdirected_request = 421"
| "status_int SC_unprocessable_content = 422"
| "status_int SC_unprocessable_entity = 422"
| "status_int SC_locked = 423"
| "status_int SC_failed_dependency = 424"
| "status_int SC_too_early = 425"
| "status_int SC_upgrade_required = 426"
| "status_int SC_precondition_required = 428"
| "status_int SC_too_many_requests = 429"
| "status_int SC_request_header_fields_too_large = 431"
| "status_int SC_unavailable_for_legal_reasons = 451"
| "status_int SC_internal_server_error = 500"
| "status_int SC_not_implemented = 501"
| "status_int SC_bad_gateway = 502"
| "status_int SC_service_unavailable = 503"
| "status_int SC_gateway_timeout = 504"
| "status_int SC_http_version_not_supported = 505"
| "status_int SC_variant_also_negotiates = 506"
| "status_int SC_insufficient_storage = 507"
| "status_int SC_loop_detected = 508"
| "status_int SC_not_extended = 510"
| "status_int SC_network_authentication_required = 511"
| "status_int SC_max = 1023"

text \<open>The \<open>switch\<close> of \<open>format_status_code\<close>, its labels and strings in the source's order.\<close>

definition format_status_code :: "int \<Rightarrow> string" where
  "format_status_code code =
     (case map_of
        [(100, ''Continue''),
         (101, ''Switching Protocols''),
         (102, ''Processing''),
         (200, ''OK''),
         (201, ''Created''),
         (202, ''Accepted''),
         (203, ''Non-authoritative Information''),
         (204, ''No Content''),
         (205, ''Reset Content''),
         (206, ''Partial Content''),
         (207, ''Multi-Status''),
         (208, ''Already Reported''),
         (226, ''IM Used''),
         (300, ''Multiple Choices''),
         (301, ''Moved Permanently''),
         (302, ''Found''),
         (303, ''See Other''),
         (304, ''Not Modified''),
         (305, ''Use Proxy''),
         (307, ''Temporary Redirect''),
         (308, ''Permanent Redirect''),
         (400, ''Bad Request''),
         (401, ''Unauthorized''),
         (402, ''Payment Required''),
         (403, ''Forbidden''),
         (404, ''Not Found''),
         (405, ''Method Not Allowed''),
         (406, ''Not Acceptable''),
         (407, ''Proxy Authentication Required''),
         (408, ''Request Timeout''),
         (409, ''Conflict''),
         (410, ''Gone''),
         (411, ''Length Required''),
         (412, ''Precondition Failed''),
         (413, ''Payload Too Large''),
         (414, ''Request-URI Too Long''),
         (415, ''Unsupported Media Type''),
         (416, ''Requested Range Not Satisfiable''),
         (417, ''Expectation Failed''),
         (418, ''I'' @ [CHR 0x27] @ ''m a teapot''),
         (421, ''Misdirected Request''),
         (422, ''Unprocessable Entity''),
         (423, ''Locked''),
         (424, ''Failed Dependency''),
         (426, ''Upgrade Required''),
         (428, ''Precondition Required''),
         (429, ''Too Many Requests''),
         (431, ''Request Header Fields Too Large''),
         (444, ''Connection Closed Without Response''),
         (451, ''Unavailable For Legal Reasons''),
         (499, ''Client Closed Request''),
         (500, ''Internal Server Error''),
         (501, ''Not Implemented''),
         (502, ''Bad Gateway''),
         (503, ''Service Unavailable''),
         (504, ''Gateway Timeout''),
         (505, ''HTTP Version Not Supported''),
         (506, ''Variant Also Negotiates''),
         (507, ''Insufficient Storage''),
         (508, ''Loop Detected''),
         (510, ''Not Extended''),
         (511, ''Network Authentication Required''),
         (599, ''Network Connect Timeout Error'')] code of
        Some phrase \<Rightarrow> phrase
      | None \<Rightarrow> '''')"

text \<open>The response head both streaming calls send, with a formatted header block.\<close>

definition format_preamble :: "int \<Rightarrow> string \<Rightarrow> string" where
  "format_preamble code hs =
     ''HTTP/1.1 '' @ fmt_int code @ '' '' @ format_status_code code @ crlf @ hs @ crlf"

definition format_ip :: "'p mg_env \<Rightarrow> mg_addr \<Rightarrow> string" where
  "format_ip E ip =
     (let port = fmt_int (uint (env_ntohs E (ad_port ip)));
          buffer = env_inet_ntop E (ad_is_ip6 ip) (ad_ip ip)
      in if ad_is_ip6 ip then ''['' @ buffer @ '']:'' @ port else buffer @ '':'' @ port)"

subsection \<open>Lemmas\<close>

text \<open>
  Four enumerators have no phrase: the two markers \<open>invalid\<close> and \<open>max\<close>, and the two
  codes 103 and 425 that the table copied from mongoose lacks.
\<close>

lemma map_of_default_empty:
  assumes "list_all (\<lambda>e. snd e \<noteq> []) t"
  shows "(case map_of t c of Some p \<Rightarrow> p | None \<Rightarrow> []) = [] \<longleftrightarrow> c \<notin> set (map fst t)"
  using assms by (induction t) auto

lemma format_status_code_empty:
  "format_status_code code = [] \<longleftrightarrow> code \<notin>
     set [100, 101, 102, 200, 201, 202, 203, 204, 205, 206, 207, 208, 226, 300, 301, 302, 303, 304,
          305, 307, 308, 400, 401, 402, 403, 404, 405, 406, 407, 408, 409, 410, 411, 412, 413, 414,
          415, 416, 417, 418, 421, 422, 423, 424, 426, 428, 429, 431, 444, 451, 499, 500, 501, 502,
          503, 504, 505, 506, 507, 508, 510, 511, 599]"
  unfolding format_status_code_def
  by (subst map_of_default_empty) (simp_all only: list.pred_inject list.map fst_conv snd_conv
      append_is_Nil_conv list.distinct simp_thms)

lemma format_status_code_phrase:
  "format_status_code (status_int s) = '''' \<longleftrightarrow>
     s = SC_invalid \<or> s = SC_max \<or> s = SC_early_hints \<or> s = SC_too_early"
  unfolding format_status_code_empty by (cases s) simp_all

lemma status_int_range: "s \<noteq> SC_invalid \<Longrightarrow> 100 \<le> status_int s \<and> status_int s \<le> 1023"
  by (cases s) simp_all

lemma fmt_int_nat: "0 \<le> i \<Longrightarrow> fmt_int i = dec_nat (nat i)"
  by (simp add: fmt_int_def)

lemma colon_not_digit: "CHR '':'' \<notin> set (dec_nat n)"
  using dec_nat_digits [of "CHR '':''" n] by auto

text \<open>Splitting at the last colon.\<close>

lemma append_colon_inject:
  assumes "a @ CHR '':'' # p = b @ CHR '':'' # q" "CHR '':'' \<notin> set p" "CHR '':'' \<notin> set q"
  shows "a = b \<and> p = q"
  using assms
proof (induction a arbitrary: b)
  case Nil
  then show ?case by (cases b) auto
next
  case (Cons x a)
  then show ?case by (cases b) auto
qed

end
