(* ===== verification/Tls_Cert.thy ===== *)
theory Tls_Cert
  imports Common
begin

text \<open>
  \<open>tls.hpp\<close> and \<open>remote_context::setup\<close> of \<open>http/remote_context.cpp\<close>: what is kept of
  a client certificate. One buffer holds the six fields one after the other and six views
  point into it. The OpenSSL and the mbedTLS build each have their own extraction.
\<close>

subsection \<open>The class \<open>tls_cert_info\<close>\<close>

text \<open>A view into the buffer is an offset from its start and a length.\<close>

record tls_cert_info =
  tc_buffer :: string
  tc_subject_name :: "nat \<times> nat"
  tc_issuer_name :: "nat \<times> nat"
  tc_serial_number :: "nat \<times> nat"
  tc_not_before :: "nat \<times> nat"
  tc_not_after :: "nat \<times> nat"
  tc_fingerprint :: "nat \<times> nat"

definition view_in :: "string \<Rightarrow> nat \<times> nat \<Rightarrow> string" where
  "view_in buffer v = take (snd v) (drop (fst v) buffer)"

definition get_subject_name :: "tls_cert_info \<Rightarrow> string" where
  "get_subject_name t = view_in (tc_buffer t) (tc_subject_name t)"

definition get_issuer_name :: "tls_cert_info \<Rightarrow> string" where
  "get_issuer_name t = view_in (tc_buffer t) (tc_issuer_name t)"

definition get_serial_number :: "tls_cert_info \<Rightarrow> string" where
  "get_serial_number t = view_in (tc_buffer t) (tc_serial_number t)"

definition get_not_before :: "tls_cert_info \<Rightarrow> string" where
  "get_not_before t = view_in (tc_buffer t) (tc_not_before t)"

definition get_not_after :: "tls_cert_info \<Rightarrow> string" where
  "get_not_after t = view_in (tc_buffer t) (tc_not_after t)"

definition get_fingerprint :: "tls_cert_info \<Rightarrow> string" where
  "get_fingerprint t = view_in (tc_buffer t) (tc_fingerprint t)"

text \<open>The end of both extractions: fill the buffer, then set the views.\<close>

definition pack_cert_info ::
  "string \<Rightarrow> string \<Rightarrow> string \<Rightarrow> string \<Rightarrow> string \<Rightarrow> string \<Rightarrow> tls_cert_info" where
  "pack_cert_info subject issuer serial before after fingerprint =
     (let base = 0 in
      \<lparr>tc_buffer = subject @ issuer @ serial @ before @ after @ fingerprint,
       tc_subject_name = (base, length subject),
       tc_issuer_name = (base + length subject, length issuer),
       tc_serial_number = (base + length subject + length issuer, length serial),
       tc_not_before = (base + length subject + length issuer + length serial, length before),
       tc_not_after =
         (base + length subject + length issuer + length serial + length before, length after),
       tc_fingerprint =
         (base + length subject + length issuer + length serial + length before + length after,
          length fingerprint)\<rparr>)"

subsection \<open>Extraction\<close>

text \<open>The loop over the digest, from index \<open>i\<close> with the text so far.\<close>

function fingerprint_loop :: "8 word list \<Rightarrow> nat \<Rightarrow> nat \<Rightarrow> string \<Rightarrow> string" where
  "fingerprint_loop hash hash_length i fingerprint =
     (if i < hash_length
      then fingerprint_loop hash hash_length (Suc i)
             (fingerprint @ fmt_hex2 (hash ! i) @ (if i < hash_length - 1 then '':'' else []))
      else fingerprint)"
  by pat_completeness auto
termination
  by (relation "measure (\<lambda>(_, n, i, _). n - i)") auto

declare fingerprint_loop.simps [simp del]

text \<open>\<open>get_x509_time\<close> of the OpenSSL build: empty when the time cannot be read.\<close>

definition openssl_time :: "int option \<Rightarrow> string" where
  "openssl_time time = (case time of None \<Rightarrow> '''' | Some timestamp \<Rightarrow> fmt_int timestamp)"

text \<open>\<open>None\<close>: the function returns early and the stored certificate stays as it was.\<close>

definition setup_openssl :: "x509 option option \<Rightarrow> bool \<Rightarrow> tls_cert_info option" where
  "setup_openssl ssl bio_ok =
     (case ssl of
        None \<Rightarrow> None
      | Some peer \<Rightarrow>
          (case peer of
             None \<Rightarrow> None
           | Some cert \<Rightarrow>
               if \<not> bio_ok then None
               else
                 let subject = x_subject cert;
                     issuer = x_issuer cert;
                     before = openssl_time (x_not_before cert);
                     after = openssl_time (x_not_after cert);
                     serial = x_serial_hex cert;
                     fp = x_sha256 cert;
                     fingerprint = fingerprint_loop fp (length fp) 0 ''''
                 in Some (pack_cert_info subject issuer serial before after fingerprint)))"

definition mbed_tm :: "mbed_time \<Rightarrow> tm" where
  "mbed_tm time =
     \<lparr>tm_year = mt_year time - 1900, tm_mon = mt_mon time - 1, tm_mday = mt_day time,
      tm_hour = mt_hour time, tm_min = mt_min time, tm_sec = mt_sec time, tm_isdst = -1\<rparr>"

definition value_or :: "'a option \<Rightarrow> 'a \<Rightarrow> 'a" where
  "value_or x d = (case x of None \<Rightarrow> d | Some v \<Rightarrow> v)"

definition mbed_fingerprint :: "8 word list option \<Rightarrow> string option" where
  "mbed_fingerprint h =
     (case h of None \<Rightarrow> None | Some hash \<Rightarrow> Some (fingerprint_loop hash (length hash) 0 ''''))"

definition setup_mbed :: "'p mg_env \<Rightarrow> mbed_crt option \<Rightarrow> tls_cert_info option" where
  "setup_mbed E peer =
     (case peer of
        None \<Rightarrow> None
      | Some cert \<Rightarrow>
          let subject = value_or (mc_subject cert) '''';
              issuer = value_or (mc_issuer cert) '''';
              serial = filter (\<lambda>c. c \<noteq> CHR '':'') (value_or (mc_serial cert) '''');
              before = fmt_int (env_timegm E (mbed_tm (mc_valid_from cert)));
              after = fmt_int (env_timegm E (mbed_tm (mc_valid_to cert)));
              fingerprint = value_or (mbed_fingerprint (mc_sha256 cert)) ''''
          in Some (pack_cert_info subject issuer serial before after fingerprint))"

definition tls_setup :: "'p mg_env \<Rightarrow> tls_peer \<Rightarrow> tls_cert_info option" where
  "tls_setup E tls =
     (case tls of
        TlsNull \<Rightarrow> None
      | TlsBuiltin \<Rightarrow> None
      | TlsOpenSSL ssl bio_ok \<Rightarrow> setup_openssl ssl bio_ok
      | TlsMbed peer \<Rightarrow> setup_mbed E peer)"

subsection \<open>Lemmas\<close>

lemma pack_cert_info_views [simp]:
  "get_subject_name (pack_cert_info s i n b a f) = s"
  "get_issuer_name (pack_cert_info s i n b a f) = i"
  "get_serial_number (pack_cert_info s i n b a f) = n"
  "get_not_before (pack_cert_info s i n b a f) = b"
  "get_not_after (pack_cert_info s i n b a f) = a"
  "get_fingerprint (pack_cert_info s i n b a f) = f"
  by (simp_all add: pack_cert_info_def get_subject_name_def get_issuer_name_def
      get_serial_number_def get_not_before_def get_not_after_def get_fingerprint_def view_in_def)

lemma pack_cert_info_buffer [simp]:
  "tc_buffer (pack_cert_info s i n b a f) = s @ i @ n @ b @ a @ f"
  by (simp add: pack_cert_info_def)

text \<open>The fingerprint as the README shows it: two digits per byte, colons between them.\<close>

fun colon_join :: "string list \<Rightarrow> string" where
  "colon_join [] = []"
| "colon_join [x] = x"
| "colon_join (x # xs) = x @ '':'' @ colon_join xs"

lemma fingerprint_loop_suffix:
  assumes "i \<le> length hash"
  shows "fingerprint_loop hash (length hash) i acc = acc @ colon_join (map fmt_hex2 (drop i hash))"
  using assms
proof (induction "length hash - i" arbitrary: i acc)
  case 0
  then show ?case by (simp add: fingerprint_loop.simps [of hash _ i])
next
  case (Suc k)
  then have i: "i < length hash" by simp
  have drop: "drop i hash = hash ! i # drop (Suc i) hash" using i by (simp add: Cons_nth_drop_Suc)
  have "fingerprint_loop hash (length hash) i acc =
    fingerprint_loop hash (length hash) (Suc i)
      (acc @ fmt_hex2 (hash ! i) @ (if i < length hash - 1 then '':'' else []))"
    using i by (subst fingerprint_loop.simps) simp
  also have "\<dots> = (acc @ fmt_hex2 (hash ! i) @ (if i < length hash - 1 then '':'' else []))
      @ colon_join (map fmt_hex2 (drop (Suc i) hash))"
    using Suc(2) i by (intro Suc(1)) auto
  also have "\<dots> = acc @ colon_join (map fmt_hex2 (drop i hash))"
  proof (cases "drop (Suc i) hash")
    case Nil
    then have "\<not> i < length hash - 1" by auto
    with Nil drop show ?thesis by simp
  next
    case (Cons y ys)
    then have "Suc i < length hash" by (metis drop_eq_Nil list.distinct(1) not_le)
    then have "i < length hash - 1" by simp
    with Cons drop show ?thesis by simp
  qed
  finally show ?case .
qed

lemma fingerprint_loop_eq: "fingerprint_loop hash (length hash) 0 '''' = colon_join (map fmt_hex2 hash)"
  using fingerprint_loop_suffix [of 0 hash "''''"] by simp

text \<open>Reading the digest back.\<close>

definition hex2_byte :: "char \<Rightarrow> char \<Rightarrow> 8 word" where
  "hex2_byte h l = of_nat (16 * hex_val h + hex_val l)"

lemma hex2_byte_fmt [simp]: "hex2_byte (hex_digit (unat b div 16)) (hex_digit (unat b mod 16)) = b"
proof -
  have "unat b < 256" using unsigned_less [of b] by simp
  then have "unat b div 16 < 16" by simp
  then have "16 * hex_val (hex_digit (unat b div 16)) + hex_val (hex_digit (unat b mod 16)) = unat b"
    by simp
  then show ?thesis by (simp add: hex2_byte_def del: of_nat_add of_nat_mult)
qed

fun parse_fingerprint :: "string \<Rightarrow> 8 word list" where
  "parse_fingerprint (h # l # c # s) = hex2_byte h l # parse_fingerprint s"
| "parse_fingerprint [h, l] = [hex2_byte h l]"
| "parse_fingerprint _ = []"

lemma parse_fingerprint_join: "parse_fingerprint (colon_join (map fmt_hex2 hash)) = hash"
proof (induction hash)
  case Nil
  then show ?case by simp
next
  case (Cons b hash)
  then show ?case by (cases hash) (simp_all add: fmt_hex2_def)
qed

lemma length_colon_join: "hash \<noteq> [] \<Longrightarrow> length (colon_join (map fmt_hex2 hash)) = 3 * length hash - 1"
proof (induction hash)
  case Nil
  then show ?case by simp
next
  case (Cons b hash)
  then show ?case by (cases hash) auto
qed

end
