(* ===== verification/Async_Stream.thy ===== *)
theory Async_Stream
  imports Mongoose
begin

text \<open>
  \<open>http/async_stream.cpp\<close>: one chunk at a time handed from a worker thread to the event
  loop through an atomic state. The worker waits for \<open>empty\<close>, stores a chunk and wakes the
  loop; the loop sends the chunk and marks \<open>flush\<close>, then \<open>empty\<close> once the connection
  has room again. An operation returns the object and the calls it makes.

  The pointer to the manager is not kept in the record: whether it can still be locked is
  \<open>env_mgr_alive\<close>. A moved-from string is empty.
\<close>

datatype stream_state =
    S_start
  | S_has_data
  | S_flush
  | S_empty
  | S_close
  | S_completed
  | S_failed

record async_stream =
  as_conn :: ulong
  as_id :: u64
  as_data :: string
  as_state :: stream_state

definition async_stream_new :: "ulong \<Rightarrow> u64 \<Rightarrow> string \<Rightarrow> async_stream" where
  "async_stream_new conn rid preamble =
     \<lparr>as_conn = conn, as_id = rid, as_data = preamble, as_state = S_start\<rparr>"

text \<open>
  \<open>wait\<close> reads the state again each time it has changed; \<open>obs i\<close> is the value of read
  \<open>i\<close>. \<open>None\<close> is a wait that never returns.
\<close>

partial_function (option) async_stream_wait :: "(nat \<Rightarrow> stream_state) \<Rightarrow> nat \<Rightarrow> bool option" where
  "async_stream_wait obs i =
     (if obs i \<noteq> S_empty
      then (if obs i = S_failed \<or> obs i = S_completed then Some False
            else async_stream_wait obs (Suc i))
      else Some True)"

definition async_stream_failed :: "async_stream \<Rightarrow> bool" where
  "async_stream_failed s \<longleftrightarrow> as_state s = S_failed"

definition async_stream_send ::
  "'p mg_env \<Rightarrow> string \<Rightarrow> async_stream \<Rightarrow> async_stream \<times> mg_call list" where
  "async_stream_send E body s =
     (let s1 = s\<lparr>as_data := body\<rparr>;
          s2 = s1\<lparr>as_state := S_has_data\<rparr>
      in if env_mgr_alive E
         then (if \<not> env_wakeup E (as_conn s2) (size_t_bytes (as_id s2))
               then (s2\<lparr>as_state := S_failed\<rparr>, [MgWakeup (as_conn s2) (size_t_bytes (as_id s2))])
               else (s2, [MgWakeup (as_conn s2) (size_t_bytes (as_id s2))]))
         else (s2, []))"

definition async_stream_close ::
  "'p mg_env \<Rightarrow> async_stream \<Rightarrow> async_stream \<times> mg_call list" where
  "async_stream_close E s =
     (let s1 = s\<lparr>as_data := ''''\<rparr>;
          s2 = s1\<lparr>as_state := S_close\<rparr>
      in if env_mgr_alive E
         then (if \<not> env_wakeup E (as_conn s2) (size_t_bytes (as_id s2))
               then (s2\<lparr>as_state := S_failed\<rparr>, [MgWakeup (as_conn s2) (size_t_bytes (as_id s2))])
               else (s2, [MgWakeup (as_conn s2) (size_t_bytes (as_id s2))]))
         else (s2, []))"

definition async_stream_get_id :: "async_stream \<Rightarrow> u64" where
  "async_stream_get_id s = as_id s"

definition async_stream_get_data :: "async_stream \<Rightarrow> string \<times> async_stream" where
  "async_stream_get_data s = (as_data s, s\<lparr>as_data := ''''\<rparr>)"

definition async_stream_get_state :: "async_stream \<Rightarrow> stream_state" where
  "async_stream_get_state s = as_state s"

definition async_stream_mark_flush :: "async_stream \<Rightarrow> async_stream" where
  "async_stream_mark_flush s = s\<lparr>as_state := S_flush\<rparr>"

definition async_stream_mark_empty :: "async_stream \<Rightarrow> async_stream" where
  "async_stream_mark_empty s = s\<lparr>as_state := S_empty\<rparr>"

definition async_stream_mark_completed :: "async_stream \<Rightarrow> async_stream" where
  "async_stream_mark_completed s = s\<lparr>as_state := S_completed\<rparr>"

definition async_stream_mark_failed :: "async_stream \<Rightarrow> async_stream" where
  "async_stream_mark_failed s = s\<lparr>as_state := S_failed\<rparr>"

lemmas async_stream_marks =
  async_stream_mark_flush_def async_stream_mark_empty_def
  async_stream_mark_completed_def async_stream_mark_failed_def

subsection \<open>Frame\<close>

text \<open>No operation moves a stream to another connection or request.\<close>

lemma async_stream_send_frame [simp]:
  "as_conn (fst (async_stream_send E body s)) = as_conn s"
  "as_id (fst (async_stream_send E body s)) = as_id s"
  by (simp_all add: async_stream_send_def Let_def)

lemma async_stream_close_frame [simp]:
  "as_conn (fst (async_stream_close E s)) = as_conn s"
  "as_id (fst (async_stream_close E s)) = as_id s"
  by (simp_all add: async_stream_close_def Let_def)

lemma async_stream_mark_frame [simp]:
  "as_conn (async_stream_mark_flush s) = as_conn s"
  "as_id (async_stream_mark_flush s) = as_id s"
  "as_conn (async_stream_mark_empty s) = as_conn s"
  "as_id (async_stream_mark_empty s) = as_id s"
  "as_conn (async_stream_mark_completed s) = as_conn s"
  "as_id (async_stream_mark_completed s) = as_id s"
  "as_conn (async_stream_mark_failed s) = as_conn s"
  "as_id (async_stream_mark_failed s) = as_id s"
  "as_state (async_stream_mark_failed s) = S_failed"
  by (simp_all add: async_stream_marks)

text \<open>Every call a stream makes is a wakeup of its own connection with its own id.\<close>

lemma async_stream_send_calls:
  "snd (async_stream_send E body s) =
     (if env_mgr_alive E then [MgWakeup (as_conn s) (size_t_bytes (as_id s))] else [])"
  by (simp add: async_stream_send_def Let_def)

lemma async_stream_close_calls:
  "snd (async_stream_close E s) =
     (if env_mgr_alive E then [MgWakeup (as_conn s) (size_t_bytes (as_id s))] else [])"
  by (simp add: async_stream_close_def Let_def)

lemma async_stream_calls_ok [simp]:
  "list_all wakeup_ok (snd (async_stream_send E body s))"
  "list_all wakeup_ok (snd (async_stream_close E s))"
  by (auto simp: async_stream_send_calls async_stream_close_calls)

subsection \<open>Waiting\<close>

definition wait_done :: "stream_state \<Rightarrow> bool" where
  "wait_done st \<longleftrightarrow> st = S_empty \<or> st = S_failed \<or> st = S_completed"

lemma async_stream_wait_step: "\<not> wait_done (obs i) \<Longrightarrow> async_stream_wait obs i = async_stream_wait obs (Suc i)"
  by (simp add: async_stream_wait.simps [of obs i] wait_done_def)

lemma async_stream_wait_stop: "wait_done (obs i) \<Longrightarrow> async_stream_wait obs i = Some (obs i = S_empty)"
  by (auto simp: async_stream_wait.simps [of obs i] wait_done_def)

text \<open>With \<open>n\<close> reads before it that do not end the loop, the read at \<open>i + n\<close> decides.\<close>

lemma async_stream_wait_after:
  assumes "\<forall>j < n. \<not> wait_done (obs (i + j))" "wait_done (obs (i + n))"
  shows "async_stream_wait obs i = Some (obs (i + n) = S_empty)"
  using assms
proof (induction n arbitrary: i)
  case 0
  then show ?case by (simp add: async_stream_wait_stop)
next
  case (Suc n)
  from Suc.prems(1) have "\<not> wait_done (obs i)" by (metis add.right_neutral zero_less_Suc)
  moreover have "async_stream_wait obs (Suc i) = Some (obs (Suc i + n) = S_empty)"
    using Suc.prems by (intro Suc.IH) (auto simp flip: add_Suc_right)
  ultimately show ?case by (simp add: async_stream_wait_step)
qed

lemma async_stream_wait_done:
  assumes "async_stream_wait obs i = Some b"
  shows "\<exists>n \<ge> i. wait_done (obs n)"
proof (rule async_stream_wait.raw_induct [where P = "\<lambda>obs i b. \<exists>n \<ge> i. wait_done (obs n)", OF _ assms])
  fix f :: "(nat \<Rightarrow> stream_state) \<Rightarrow> nat \<Rightarrow> bool option" and obs i b
  assume IH: "\<And>obs i b. f obs i = Some b \<Longrightarrow> \<exists>n \<ge> i. wait_done (obs n)"
    and eq: "(if obs i \<noteq> S_empty
       then if obs i = S_failed \<or> obs i = S_completed then Some False else f obs (Suc i)
       else Some True) = Some b"
  show "\<exists>n \<ge> i. wait_done (obs n)"
  proof (cases "wait_done (obs i)")
    case True
    then show ?thesis by blast
  next
    case False
    with eq have "f obs (Suc i) = Some b" by (simp add: wait_done_def)
    from IH [OF this] show ?thesis by (meson Suc_leD)
  qed
qed

text \<open>A stream nobody touches any more.\<close>

lemma wait_const: "async_stream_wait (\<lambda>i. st) 0 = Some b \<longleftrightarrow> wait_done st \<and> b = (st = S_empty)"
proof
  assume *: "async_stream_wait (\<lambda>i. st) 0 = Some b"
  from async_stream_wait_done [OF this] have "wait_done st" by simp
  with * show "wait_done st \<and> b = (st = S_empty)" by (simp add: async_stream_wait_stop)
qed (simp add: async_stream_wait_stop)

lemma wait_never: "\<not> wait_done st \<Longrightarrow> async_stream_wait (\<lambda>i. st) 0 = None"
  using async_stream_wait_done [of "\<lambda>i. st" 0] by (cases "async_stream_wait (\<lambda>i. st) 0") auto

end
