(* ===== verification/Remote_Context.thy ===== *)
theory Remote_Context
  imports Tls_Cert Async_Stream
begin

text \<open>
  \<open>internal/remote_context.hpp\<close> and \<open>http/remote_context.cpp\<close>: what the library keeps
  per accepted connection, and the two pumps that run when mongoose has written data. The
  certificate is a reference into the store of certificates; the stream producer is the
  user's callback, with a state of its own.
\<close>

record 'p remote_context =
  rc_endpoint :: nat
  rc_ip :: string
  rc_tls_cert :: "nat option"
  rc_stream :: "'p option"

definition remote_context_new :: "'p mg_env \<Rightarrow> nat \<Rightarrow> mg_connection \<Rightarrow> 'p remote_context" where
  "remote_context_new E endpoint conn =
     \<lparr>rc_endpoint = endpoint, rc_ip = format_ip E (c_rem conn), rc_tls_cert = None, rc_stream = None\<rparr>"

definition remote_context_get_remote_ip :: "'p remote_context \<Rightarrow> string" where
  "remote_context_get_remote_ip ctx = rc_ip ctx"

definition remote_context_get_tls_cert_info :: "'p remote_context \<Rightarrow> nat option" where
  "remote_context_get_tls_cert_info ctx = rc_tls_cert ctx"

definition set_stream :: "'p \<Rightarrow> 'p remote_context \<Rightarrow> 'p remote_context" where
  "set_stream producer ctx = ctx\<lparr>rc_stream := Some producer\<rparr>"

definition pump_stream ::
  "'p mg_env \<Rightarrow> mg_connection \<Rightarrow> 'p remote_context \<Rightarrow> 'p remote_context \<times> mg_call list" where
  "pump_stream E conn ctx =
     (case rc_stream ctx of
        None \<Rightarrow> (ctx, [])
      | Some producer \<Rightarrow>
          if c_send_len conn \<ge> env_io_size E then (ctx, [])
          else
            let (chunk, producer') = env_get E producer in
            (case chunk of
               None \<Rightarrow> (ctx\<lparr>rc_stream := None\<rparr>, [MgHttpWriteChunk (c_id conn) ''''])
             | Some data \<Rightarrow>
                 (ctx\<lparr>rc_stream := Some producer'\<rparr>, [MgHttpWriteChunk (c_id conn) data])))"

definition pump_async_stream ::
  "'p mg_env \<Rightarrow> mg_connection \<Rightarrow> async_stream \<Rightarrow> async_stream" where
  "pump_async_stream E conn stream =
     (if async_stream_get_state stream \<noteq> S_flush then stream
      else if c_send_len conn \<ge> env_io_size E then stream
      else async_stream_mark_empty stream)"

lemma pump_async_stream_frame [simp]:
  "as_conn (pump_async_stream E conn s) = as_conn s"
  "as_id (pump_async_stream E conn s) = as_id s"
  by (simp_all add: pump_async_stream_def)

lemma pump_stream_frame [simp]:
  "rc_endpoint (fst (pump_stream E conn ctx)) = rc_endpoint ctx"
  "rc_tls_cert (fst (pump_stream E conn ctx)) = rc_tls_cert ctx"
  by (auto simp: pump_stream_def split_def Let_def split: option.split)

lemma pump_stream_no_wakeup: "k \<in> set (snd (pump_stream E conn ctx)) \<Longrightarrow> \<not> is_wakeup k"
  by (auto simp: pump_stream_def split_def Let_def split: option.splits if_splits)

lemma pump_stream_calls_ok [simp]: "list_all wakeup_ok (snd (pump_stream E conn ctx))"
  by (auto simp: list_all_iff intro: wakeup_ok_net dest: pump_stream_no_wakeup)

subsection \<open>A producer run to its end\<close>

text \<open>The chunks a producer still has, with at most \<open>n\<close> calls.\<close>

fun produced :: "'p mg_env \<Rightarrow> nat \<Rightarrow> 'p \<Rightarrow> string list option" where
  "produced E 0 p = None"
| "produced E (Suc n) p =
     (case env_get E p of
        (None, p') \<Rightarrow> Some []
      | (Some d, p') \<Rightarrow> map_option (\<lambda>ds. d # ds) (produced E n p'))"

text \<open>\<open>n\<close> write events on a connection whose buffer has room each time.\<close>

fun pump_run ::
  "'p mg_env \<Rightarrow> mg_connection \<Rightarrow> nat \<Rightarrow> 'p remote_context \<Rightarrow> 'p remote_context \<times> mg_call list" where
  "pump_run E conn 0 ctx = (ctx, [])"
| "pump_run E conn (Suc n) ctx =
     (let (ctx1, calls1) = pump_stream E conn ctx;
          (ctx2, calls2) = pump_run E conn n ctx1
      in (ctx2, calls1 @ calls2))"

lemma pump_run_idle: "rc_stream ctx = None \<Longrightarrow> pump_run E conn n ctx = (ctx, [])"
  by (induction n) (simp_all add: pump_stream_def)

lemma pump_run_produced:
  assumes "c_send_len conn < env_io_size E" and "produced E n p = Some ds" and "rc_stream ctx = Some p"
  shows "snd (pump_run E conn n ctx) =
      map (MgHttpWriteChunk (c_id conn)) ds @ [MgHttpWriteChunk (c_id conn) '''']
    \<and> rc_stream (fst (pump_run E conn n ctx)) = None"
  using assms(2,3)
proof (induction n arbitrary: p ds ctx)
  case 0
  then show ?case by simp
next
  case (Suc n)
  obtain c p' where g: "env_get E p = (c, p')" by fastforce
  show ?case
  proof (cases c)
    case None
    with Suc.prems g assms(1) have "pump_stream E conn ctx =
        (ctx\<lparr>rc_stream := None\<rparr>, [MgHttpWriteChunk (c_id conn) ''''])" "ds = []"
      by (auto simp: pump_stream_def)
    then show ?thesis by (simp add: pump_run_idle)
  next
    case (Some d)
    with Suc.prems g obtain ds' where ds: "produced E n p' = Some ds'" "ds = d # ds'" by auto
    from Some Suc.prems(2) g assms(1) have "pump_stream E conn ctx =
        (ctx\<lparr>rc_stream := Some p'\<rparr>, [MgHttpWriteChunk (c_id conn) d])"
      by (auto simp: pump_stream_def)
    with Suc.IH [OF ds(1), of "ctx\<lparr>rc_stream := Some p'\<rparr>"] ds(2) show ?thesis
      by (simp add: split_def)
  qed
qed

end
