(* ===== verification/Interfaces.thy ===== *)
theory Interfaces
  imports Prelude
begin

text \<open>
  The interfaces between the components, as locales. \<open>dict\<close> is what the endpoint and the
  header class rely on in an \<open>unordered_map\<close>, whatever its key equality; \<open>counted_dict\<close>
  adds \<open>size()\<close>. \<open>oneshot\<close> is the contract of the two response classes towards a
  handler: of all the attempts to answer, one takes effect. \<open>transition_system\<close> is the
  induction behind every statement about reachable states.
\<close>

subsection \<open>Dictionaries up to a key equality\<close>

locale dict =
  fixes keq :: "'k \<Rightarrow> 'k \<Rightarrow> bool"
    and lookup :: "'m \<Rightarrow> 'k \<Rightarrow> 'v option"
    and put :: "'k \<Rightarrow> 'v \<Rightarrow> 'm \<Rightarrow> 'm"
    and erase :: "'k \<Rightarrow> 'm \<Rightarrow> 'm"
    and ok :: "'m \<Rightarrow> bool"
  assumes keq_equiv: "equivp keq"
    and lookup_cong: "keq k k' \<Longrightarrow> lookup m k = lookup m k'"
    and lookup_put: "ok m \<Longrightarrow> lookup (put k v m) k' = (if keq k k' then Some v else lookup m k')"
    and lookup_erase: "ok m \<Longrightarrow> lookup (erase k m) k' = (if keq k k' then None else lookup m k')"
    and ok_put: "ok m \<Longrightarrow> ok (put k v m)"
    and ok_erase: "ok m \<Longrightarrow> ok (erase k m)"
begin

lemma keq_refl: "keq k k"
  using keq_equiv by (simp add: equivp_reflp)

lemma keq_sym: "keq k k' \<Longrightarrow> keq k' k"
  using keq_equiv by (rule equivp_symp)

lemma put_same: "ok m \<Longrightarrow> keq k k' \<Longrightarrow> lookup (put k v m) k' = Some v"
  by (simp add: lookup_put)

lemma put_other: "ok m \<Longrightarrow> \<not> keq k k' \<Longrightarrow> lookup (put k v m) k' = lookup m k'"
  by (simp add: lookup_put)

lemma erase_same: "ok m \<Longrightarrow> keq k k' \<Longrightarrow> lookup (erase k m) k' = None"
  by (simp add: lookup_erase)

lemma put_put: "ok m \<Longrightarrow> keq k k' \<Longrightarrow> lookup (put k' w (put k v m)) x = lookup (put k' w m) x"
  using keq_sym [of k k'] equivp_transp [OF keq_equiv, of k' k x]
  by (auto simp: lookup_put ok_put)

lemma put_commute:
  "ok m \<Longrightarrow> \<not> keq k k' \<Longrightarrow> lookup (put k v (put k' w m)) x = lookup (put k' w (put k v m)) x"
  using equivp_transp [OF keq_equiv, of k x k'] keq_sym [of k' x]
  by (auto simp: lookup_put ok_put)

lemma erase_put: "ok m \<Longrightarrow> lookup (erase k (put k v m)) x = lookup (erase k m) x"
  by (simp add: lookup_put lookup_erase ok_put)

lemma erase_absent: "ok m \<Longrightarrow> lookup m k = None \<Longrightarrow> lookup (erase k m) x = lookup m x"
  using lookup_cong [of k x m] by (simp add: lookup_erase)

end

locale counted_dict = dict keq lookup put erase ok
  for keq :: "'k \<Rightarrow> 'k \<Rightarrow> bool"
    and lookup :: "'m \<Rightarrow> 'k \<Rightarrow> 'v option"
    and put :: "'k \<Rightarrow> 'v \<Rightarrow> 'm \<Rightarrow> 'm"
    and erase :: "'k \<Rightarrow> 'm \<Rightarrow> 'm"
    and ok :: "'m \<Rightarrow> bool" +
  fixes count :: "'m \<Rightarrow> nat"
  assumes count_put:
      "ok m \<Longrightarrow> count (put k v m) = (if lookup m k = None then Suc (count m) else count m)"
    and count_erase:
      "ok m \<Longrightarrow> count (erase k m) = (if lookup m k = None then count m else count m - 1)"
begin

lemma count_put_erase: "ok m \<Longrightarrow> count (put k v (erase k m)) = Suc (count (erase k m))"
  by (simp add: count_put ok_erase lookup_erase keq_refl)

lemma count_put_put: "ok m \<Longrightarrow> count (put k w (put k v m)) = count (put k v m)"
  by (simp add: count_put ok_put lookup_put keq_refl)

end

subsection \<open>Objects that answer once\<close>

locale oneshot =
  fixes live :: "'s \<Rightarrow> bool"
    and fire :: "'a \<Rightarrow> 's \<Rightarrow> 's \<times> 'o list"
  assumes dead_silent: "\<not> live s \<Longrightarrow> snd (fire a s) = []"
    and dead_stays: "\<not> live s \<Longrightarrow> \<not> live (fst (fire a s))"
    and output_kills: "snd (fire a s) \<noteq> [] \<Longrightarrow> \<not> live (fst (fire a s))"
begin

lemma run_dead: "\<not> live s \<Longrightarrow> snd (run_ops fire as s) = [] \<and> \<not> live (fst (run_ops fire as s))"
  by (induction as arbitrary: s) (auto simp: split_def Let_def dead_silent dead_stays)

text \<open>Of a whole sequence of operations, the output is that of at most one of them.\<close>

lemma run_one_output:
  "snd (run_ops fire as s) = [] \<or>
   (\<exists>pre a post. as = pre @ a # post \<and> snd (run_ops fire pre s) = [] \<and>
      snd (run_ops fire as s) = snd (fire a (fst (run_ops fire pre s))))"
proof (induction as arbitrary: s)
  case Nil
  then show ?case by simp
next
  case (Cons a as)
  show ?case
  proof (cases "snd (fire a s) = []")
    case True
    from Cons [of "fst (fire a s)"] show ?thesis
    proof
      assume "snd (run_ops fire as (fst (fire a s))) = []"
      with True show ?thesis by (simp add: split_def Let_def)
    next
      assume "\<exists>pre b post. as = pre @ b # post \<and> snd (run_ops fire pre (fst (fire a s))) = [] \<and>
        snd (run_ops fire as (fst (fire a s))) = snd (fire b (fst (run_ops fire pre (fst (fire a s)))))"
      then obtain pre b post where "as = pre @ b # post"
        and "snd (run_ops fire pre (fst (fire a s))) = []"
        and "snd (run_ops fire as (fst (fire a s))) = snd (fire b (fst (run_ops fire pre (fst (fire a s)))))"
        by blast
      with True have "a # as = (a # pre) @ b # post \<and> snd (run_ops fire (a # pre) s) = [] \<and>
        snd (run_ops fire (a # as) s) = snd (fire b (fst (run_ops fire (a # pre) s)))"
        by (simp add: split_def Let_def)
      then show ?thesis by blast
    qed
  next
    case False
    then have "\<not> live (fst (fire a s))" by (rule output_kills)
    from run_dead [OF this] have "snd (run_ops fire (a # as) s) = snd (fire a s)"
      by (simp add: split_def Let_def)
    then have "a # as = [] @ a # as \<and> snd (run_ops fire [] s) = [] \<and>
      snd (run_ops fire (a # as) s) = snd (fire a (fst (run_ops fire [] s)))"
      by simp
    then show ?thesis by blast
  qed
qed

end

subsection \<open>Reachable states\<close>

locale transition_system =
  fixes init :: "'s \<Rightarrow> bool"
    and step :: "'s \<Rightarrow> 's \<Rightarrow> bool"
    and inv :: "'s \<Rightarrow> bool"
  assumes init_inv: "init s \<Longrightarrow> inv s"
    and step_inv: "inv s \<Longrightarrow> step s t \<Longrightarrow> inv t"
begin

lemma run_inv: "step\<^sup>*\<^sup>* s t \<Longrightarrow> inv s \<Longrightarrow> inv t"
  by (induction rule: rtranclp_induct) (auto intro: step_inv)

lemma reach_inv: "init s \<Longrightarrow> step\<^sup>*\<^sup>* s t \<Longrightarrow> inv t"
  by (blast intro: run_inv init_inv)

lemma steps_inv: "(step ^^ n) s t \<Longrightarrow> inv s \<Longrightarrow> inv t"
  by (induction n arbitrary: t) (auto intro: step_inv)

end

text \<open>
  A system whose steps are steps of a more abstract one, or invisible to it.
\<close>

locale simulation = transition_system init step inv
  for init :: "'s \<Rightarrow> bool" and step :: "'s \<Rightarrow> 's \<Rightarrow> bool" and inv :: "'s \<Rightarrow> bool" +
  fixes abs :: "'s \<Rightarrow> 'a"
    and astep :: "'a \<Rightarrow> 'a \<Rightarrow> bool"
  assumes simulates: "inv s \<Longrightarrow> step s t \<Longrightarrow> abs t = abs s \<or> astep (abs s) (abs t)"
begin

lemma reach_simulates: "init s \<Longrightarrow> step\<^sup>*\<^sup>* s t \<Longrightarrow> step t u \<Longrightarrow> abs u = abs t \<or> astep (abs t) (abs u)"
  by (rule simulates [OF reach_inv])

lemma run_simulates:
  assumes "step\<^sup>*\<^sup>* s t" "inv s"
  shows "astep\<^sup>*\<^sup>* (abs s) (abs t)"
  using assms
proof (induction rule: rtranclp_induct)
  case base
  then show ?case by simp
next
  case (step t u)
  from run_inv [OF step.hyps(1) step.prems] have "inv t" .
  from simulates [OF this step.hyps(2)] step.IH [OF step.prems] show ?case
    by (auto intro: rtranclp.rtrancl_into_rtrancl)
qed

end

end
