(* ===== verification/UMap.thy ===== *)
theory UMap
  imports Interfaces "HOL-Library.Multiset"
begin

text \<open>
  \<open>std::unordered_map\<close> as an association list in iteration order, without two keys that
  the map's equality identifies. \<open>um_put\<close> is \<open>m[k] = v\<close>: it keeps the key already
  there and replaces the value. C++ leaves the iteration order unspecified: the theorems
  hold for every list, and the step relation of the whole system may reorder one at any time.

  \<open>um_bucket_find\<close> is the lookup an implementation performs, in the bucket of the hashed
  key; it agrees with \<open>um_find\<close> exactly because equal keys hash alike.
\<close>

type_synonym ('k, 'v) umap = "('k \<times> 'v) list"

primrec um_find :: "('k \<Rightarrow> 'k \<Rightarrow> bool) \<Rightarrow> ('k, 'v) umap \<Rightarrow> 'k \<Rightarrow> 'v option" where
  "um_find eq [] k = None"
| "um_find eq (e # m) k = (if eq (fst e) k then Some (snd e) else um_find eq m k)"

primrec um_put :: "('k \<Rightarrow> 'k \<Rightarrow> bool) \<Rightarrow> 'k \<Rightarrow> 'v \<Rightarrow> ('k, 'v) umap \<Rightarrow> ('k, 'v) umap" where
  "um_put eq k v [] = [(k, v)]"
| "um_put eq k v (e # m) = (if eq (fst e) k then (fst e, v) # m else e # um_put eq k v m)"

definition um_erase :: "('k \<Rightarrow> 'k \<Rightarrow> bool) \<Rightarrow> 'k \<Rightarrow> ('k, 'v) umap \<Rightarrow> ('k, 'v) umap" where
  "um_erase eq k m = filter (\<lambda>e. \<not> eq (fst e) k) m"

primrec um_ok :: "('k \<Rightarrow> 'k \<Rightarrow> bool) \<Rightarrow> ('k, 'v) umap \<Rightarrow> bool" where
  "um_ok eq [] \<longleftrightarrow> True"
| "um_ok eq (e # m) \<longleftrightarrow> (\<forall>e' \<in> set m. \<not> eq (fst e) (fst e')) \<and> um_ok eq m"

definition um_bucket_find ::
  "('k \<Rightarrow> 'k \<Rightarrow> bool) \<Rightarrow> ('k \<Rightarrow> u64) \<Rightarrow> u64 \<Rightarrow> ('k, 'v) umap \<Rightarrow> 'k \<Rightarrow> 'v option" where
  "um_bucket_find eq hash n m k = um_find eq (filter (\<lambda>e. hash (fst e) mod n = hash k mod n) m) k"

subsection \<open>Lookups\<close>

lemma um_find_None: "um_find eq m k = None \<longleftrightarrow> (\<forall>e \<in> set m. \<not> eq (fst e) k)"
  by (induction m) auto

lemma um_find_Some_in: "um_find eq m k = Some v \<Longrightarrow> \<exists>k'. (k', v) \<in> set m \<and> eq k' k"
  by (induction m) (auto split: if_splits)

lemma um_find_cong:
  assumes "equivp eq" "eq k k'"
  shows "um_find eq m k = um_find eq m k'"
proof -
  have "eq x k \<longleftrightarrow> eq x k'" for x
    using assms by (meson equivp_symp equivp_transp)
  then show ?thesis by (induction m) auto
qed

lemma um_find_in_set:
  assumes "equivp eq" "um_ok eq m" "(k, v) \<in> set m"
  shows "um_find eq m k = Some v"
  using assms(2,3)
proof (induction m)
  case Nil
  then show ?case by simp
next
  case (Cons e m)
  show ?case
  proof (cases "e = (k, v)")
    case True
    then show ?thesis using assms(1) by (simp add: equivp_reflp)
  next
    case False
    with Cons.prems have "(k, v) \<in> set m" "\<not> eq (fst e) k" by auto
    with Cons show ?thesis by simp
  qed
qed

lemma um_find_put:
  assumes "equivp eq"
  shows "um_find eq (um_put eq k v m) k' = (if eq k k' then Some v else um_find eq m k')"
proof (induction m)
  case Nil
  then show ?case by simp
next
  case (Cons e m)
  have "eq (fst e) k \<Longrightarrow> eq (fst e) k' \<longleftrightarrow> eq k k'"
    and "eq k k' \<Longrightarrow> eq (fst e) k' \<longleftrightarrow> eq (fst e) k"
    using assms by (meson equivp_symp equivp_transp)+
  with Cons show ?case by auto
qed

lemma um_find_erase:
  assumes "equivp eq"
  shows "um_find eq (um_erase eq k m) k' = (if eq k k' then None else um_find eq m k')"
proof (induction m)
  case Nil
  then show ?case by (simp add: um_erase_def)
next
  case (Cons e m)
  have "eq (fst e) k \<Longrightarrow> eq (fst e) k' \<longleftrightarrow> eq k k'"
    and "eq k k' \<Longrightarrow> eq (fst e) k' \<longleftrightarrow> eq (fst e) k"
    using assms by (meson equivp_symp equivp_transp)+
  with Cons show ?case by (auto simp: um_erase_def)
qed

subsection \<open>Well-formedness and size\<close>

lemma um_put_keys:
  "e' \<in> set (um_put eq k v m) \<Longrightarrow> fst e' = k \<or> fst e' \<in> fst ` set m"
  by (induction m) (auto split: if_splits)

lemma um_put_values: "e' \<in> set (um_put eq k v m) \<Longrightarrow> e' \<in> set m \<or> snd e' = v"
  by (induction m) (auto split: if_splits)

lemma um_ok_put: "um_ok eq m \<Longrightarrow> um_ok eq (um_put eq k v m)"
proof (induction m)
  case Nil
  then show ?case by simp
next
  case (Cons e m)
  then show ?case by (auto dest!: um_put_keys)
qed

lemma um_ok_filter: "um_ok eq m \<Longrightarrow> um_ok eq (filter P m)"
  by (induction m) auto

lemma um_ok_erase: "um_ok eq m \<Longrightarrow> um_ok eq (um_erase eq k m)"
  by (simp add: um_erase_def um_ok_filter)

lemma um_erase_absent: "um_find eq m k = None \<Longrightarrow> um_erase eq k m = m"
  by (simp add: um_find_None um_erase_def)

lemma length_um_put:
  "length (um_put eq k v m) = (if um_find eq m k = None then Suc (length m) else length m)"
  by (induction m) auto

lemma length_um_erase:
  assumes "equivp eq" "um_ok eq m"
  shows "length (um_erase eq k m) = (if um_find eq m k = None then length m else length m - 1)"
  using assms(2)
proof (induction m)
  case Nil
  then show ?case by (simp add: um_erase_def)
next
  case (Cons e m)
  show ?case
  proof (cases "eq (fst e) k")
    case True
    have "\<not> eq (fst e') k" if "e' \<in> set m" for e'
    proof
      assume "eq (fst e') k"
      with True have "eq (fst e) (fst e')" using assms(1) by (meson equivp_symp equivp_transp)
      with Cons.prems that show False by auto
    qed
    then have "filter (\<lambda>e. \<not> eq (fst e) k) m = m" by simp
    with True show ?thesis by (simp add: um_erase_def)
  next
    case False
    with Cons have "length (um_erase eq k m) = (if um_find eq m k = None then length m else length m - 1)"
      by simp
    moreover have "m \<noteq> []" if "um_find eq m k \<noteq> None" using that by auto
    ultimately show ?thesis using False by (auto simp: um_erase_def Suc_diff_1)
  qed
qed

lemma um_ok_distinct: "um_ok (=) m \<longleftrightarrow> distinct (map fst m)"
  by (induction m) force+

lemma um_find_map_of: "um_find (=) m k = map_of m k"
  by (induction m) auto

subsection \<open>Reordering\<close>

text \<open>The content of a map does not depend on the order in which it is iterated.\<close>

lemma um_find_perm:
  assumes "um_ok (=) m" "mset m' = mset m"
  shows "um_find (=) m' k = um_find (=) m k"
proof -
  have "mset (map fst m') = mset (map fst m)" using assms(2) by simp
  from mset_eq_imp_distinct_iff [OF this] assms(1)
  have d: "distinct (map fst m)" "distinct (map fst m')" by (simp_all add: um_ok_distinct)
  from assms(2) have "set m = set m'" by (metis mset_eq_setD)
  with d have "map_of m' = map_of m" by (simp add: map_of_inject_set)
  then show ?thesis by (simp add: um_find_map_of)
qed

lemma um_ok_perm: "um_ok (=) m \<Longrightarrow> mset m' = mset m \<Longrightarrow> um_ok (=) m'"
  unfolding um_ok_distinct by (metis mset_eq_imp_distinct_iff mset_map)

subsection \<open>Hashing\<close>

lemma um_bucket_find_eq:
  assumes "\<And>a b. eq a b \<Longrightarrow> hash a = hash b"
  shows "um_bucket_find eq hash n m k = um_find eq m k"
proof (induction m)
  case Nil
  then show ?case by (simp add: um_bucket_find_def)
next
  case (Cons e m)
  then show ?case using assms [of "fst e" k] by (auto simp: um_bucket_find_def)
qed

subsection \<open>The model provides the interface\<close>

lemma um_counted_dict:
  assumes "equivp eq"
  shows "counted_dict eq (um_find eq) (um_put eq) (um_erase eq) (um_ok eq) length"
proof unfold_locales
  show "equivp eq" by (rule assms)
qed (use assms in \<open>simp_all add: um_find_put um_find_erase um_ok_put um_ok_erase
    length_um_put length_um_erase um_find_cong\<close>)

interpretation um: counted_dict "(=)" "um_find (=)" "um_put (=)" "um_erase (=)" "um_ok (=)" length
  by (rule um_counted_dict) (rule identity_equivp)

lemmas um_simps = um.lookup_put um.lookup_erase um.ok_put um.ok_erase um.keq_refl

end
