(* ===== verification/Headers.thy ===== *)
theory Headers
  imports UMap
begin

unbundle bit_operations_syntax

text \<open>
  \<open>http/headers.hpp\<close> and \<open>http/headers.cpp\<close>: the header map of a response, its FNV-1a
  hash and case-insensitive key equality, and the header block it formats.
\<close>

subsection \<open>Hash and equality\<close>

text \<open>\<open>std::tolower\<close> in the C locale.\<close>

definition tolower :: "char \<Rightarrow> char" where
  "tolower c = (if 65 \<le> (of_char c :: nat) \<and> (of_char c :: nat) \<le> 90
                then char_of (of_char c + (32 :: nat)) else c)"

definition hash_key :: "string \<Rightarrow> u64" where
  "hash_key key =
     foldl (\<lambda>hash c. (hash XOR of_char (tolower c)) * 1099511628211) 14695981039346656037 key"

definition is_equal :: "string \<Rightarrow> string \<Rightarrow> bool" where
  "is_equal lhs rhs \<longleftrightarrow>
     length lhs = length rhs \<and> list_all (\<lambda>(l, r). tolower l = tolower r) (zip lhs rhs)"

subsection \<open>The class\<close>

record headers =
  h_map :: "(string, string) umap"

definition headers_new :: headers where
  "headers_new = \<lparr>h_map = []\<rparr>"

definition headers_size :: "headers \<Rightarrow> nat" where
  "headers_size h = length (h_map h)"

definition headers_has :: "string \<Rightarrow> headers \<Rightarrow> bool" where
  "headers_has name h \<longleftrightarrow> um_find is_equal (h_map h) name \<noteq> None"

definition headers_get :: "string \<Rightarrow> headers \<Rightarrow> string option" where
  "headers_get name h =
     (case um_find is_equal (h_map h) name of None \<Rightarrow> None | Some value \<Rightarrow> Some value)"

definition headers_get_view :: "string \<Rightarrow> headers \<Rightarrow> string option" where
  "headers_get_view name h =
     (case um_find is_equal (h_map h) name of None \<Rightarrow> None | Some value \<Rightarrow> Some value)"

definition headers_set :: "string \<Rightarrow> string \<Rightarrow> headers \<Rightarrow> headers" where
  "headers_set name value h = h\<lparr>h_map := um_put is_equal name value (h_map h)\<rparr>"

definition headers_remove :: "string \<Rightarrow> headers \<Rightarrow> headers" where
  "headers_remove name h =
     (case um_find is_equal (h_map h) name of
        Some _ \<Rightarrow> h\<lparr>h_map := um_erase is_equal name (h_map h)\<rparr>
      | None \<Rightarrow> h)"

definition headers_clear :: "headers \<Rightarrow> headers" where
  "headers_clear h = h\<lparr>h_map := []\<rparr>"

text \<open>
  The parameter \<open>capacity\<close> of \<open>format\<close> only reserves memory, so it has no counterpart;
  the flag \<open>empty\<close> (here \<open>allow_empty\<close>) says whether an empty block may stay empty.
\<close>

definition headers_format :: "bool \<Rightarrow> headers \<Rightarrow> string" where
  "headers_format allow_empty h =
     (let hs = foldl (\<lambda>hs (name, value). hs @ name @ '': '' @ value @ crlf) [] (h_map h)
      in if \<not> allow_empty \<and> hs = [] then hs @ ''Content-Type: text/plain'' @ crlf else hs)"

definition headers_ok :: "headers \<Rightarrow> bool" where
  "headers_ok h \<longleftrightarrow> um_ok is_equal (h_map h)"

subsection \<open>Equality is an equivalence that the hash respects\<close>

lemma is_equal_iff: "is_equal a b \<longleftrightarrow> map tolower a = map tolower b"
proof -
  have "length a = length b \<Longrightarrow>
    list_all (\<lambda>(l, r). tolower l = tolower r) (zip a b) \<longleftrightarrow> map tolower a = map tolower b"
    by (induction a b rule: list_induct2) auto
  then show ?thesis by (auto simp: is_equal_def dest: map_eq_imp_length_eq)
qed

lemma equivp_is_equal: "equivp is_equal"
  by (rule equivpI) (auto simp: is_equal_iff intro!: reflpI sympI transpI)

lemma hash_key_tolower:
  "hash_key key = foldl (\<lambda>hash c. (hash XOR of_char c) * 1099511628211) 14695981039346656037 (map tolower key)"
  by (simp add: hash_key_def foldl_map)

lemma hash_key_cong: "is_equal a b \<Longrightarrow> hash_key a = hash_key b"
  by (simp add: is_equal_iff hash_key_tolower)

subsection \<open>The class provides a dictionary\<close>

lemma headers_remove_eq: "headers_remove name h = h\<lparr>h_map := um_erase is_equal name (h_map h)\<rparr>"
  by (simp add: headers_remove_def um_erase_absent split: option.split)

lemma headers_get_eq: "headers_get name h = um_find is_equal (h_map h) name"
  by (simp add: headers_get_def split: option.split)

lemma headers_counted_dict:
  "counted_dict is_equal (\<lambda>h name. headers_get name h) headers_set headers_remove headers_ok headers_size"
  using um_counted_dict [OF equivp_is_equal, where ?'b = string]
  by (simp add: counted_dict_def counted_dict_axioms_def dict_def headers_get_eq headers_set_def
      headers_remove_eq headers_ok_def headers_size_def)

interpretation hdr: counted_dict is_equal "\<lambda>h name. headers_get name h" headers_set headers_remove
  headers_ok headers_size
  by (rule headers_counted_dict)

lemma headers_ok_new [simp]: "headers_ok headers_new"
  by (simp add: headers_ok_def headers_new_def)

lemma headers_ok_clear [simp]: "headers_ok (headers_clear h)"
  by (simp add: headers_ok_def headers_clear_def)

subsection \<open>The formatted block\<close>

definition header_line :: "string \<times> string \<Rightarrow> string" where
  "header_line e = fst e @ '': '' @ snd e @ crlf"

lemma foldl_header_lines:
  "foldl (\<lambda>hs (name, value). hs @ name @ '': '' @ value @ crlf) acc m = acc @ concat (map header_line m)"
  by (induction m arbitrary: acc) (auto simp: header_line_def split: prod.split)

lemma headers_format_eq:
  "headers_format allow_empty h =
     (if h_map h = [] \<and> \<not> allow_empty then ''Content-Type: text/plain'' @ crlf
      else concat (map header_line (h_map h)))"
proof -
  have "header_line e \<noteq> []" for e by (simp add: header_line_def)
  then have ne: "concat (map header_line m) = [] \<longleftrightarrow> m = []" for m
    by (cases m) simp_all
  show ?thesis
    unfolding headers_format_def foldl_header_lines Let_def append_Nil ne
    by (cases "h_map h") simp_all
qed

text \<open>A reader of header blocks, to state what \<open>format\<close> promises.\<close>

definition line_of :: "string \<Rightarrow> string" where
  "line_of s = takeWhile (\<lambda>c. c \<noteq> CR) s"

definition parse_line :: "string \<Rightarrow> string \<times> string" where
  "parse_line s = (takeWhile (\<lambda>c. c \<noteq> CHR '':'') s, drop 2 (dropWhile (\<lambda>c. c \<noteq> CHR '':'') s))"

function parse_headers :: "string \<Rightarrow> (string \<times> string) list" where
  "parse_headers s =
     (if s = [] then [] else parse_line (line_of s) # parse_headers (drop 2 (dropWhile (\<lambda>c. c \<noteq> CR) s)))"
  by pat_completeness auto
termination
proof (relation "measure length")
  fix s :: string
  assume "s \<noteq> []"
  then show "(drop 2 (dropWhile (\<lambda>c. c \<noteq> CR) s), s) \<in> measure length"
    using length_dropWhile_le [of "\<lambda>c. c \<noteq> CR" s] by (cases s) auto
qed simp

declare parse_headers.simps [simp del]

definition plain_header :: "string \<times> string \<Rightarrow> bool" where
  "plain_header e \<longleftrightarrow> CHR '':'' \<notin> set (fst e) \<and> CR \<notin> set (fst e) \<and> CR \<notin> set (snd e)"

lemma takeWhile_neq_append: "x \<notin> set xs \<Longrightarrow> takeWhile (\<lambda>c. c \<noteq> x) (xs @ x # ys) = xs"
  by (induction xs) auto

lemma dropWhile_neq_append: "x \<notin> set xs \<Longrightarrow> dropWhile (\<lambda>c. c \<noteq> x) (xs @ x # ys) = x # ys"
  by (induction xs) auto

lemma parse_headers_line:
  assumes "plain_header e"
  shows "parse_headers (header_line e @ rest) = e # parse_headers rest"
proof -
  have cr: "CR \<notin> set (fst e @ '': '' @ snd e)" and col: "CHR '':'' \<notin> set (fst e)"
    using assms by (auto simp: plain_header_def)
  have split: "header_line e @ rest = (fst e @ '': '' @ snd e) @ CR # LF # rest"
    by (simp add: header_line_def)
  have "line_of (header_line e @ rest) = fst e @ '': '' @ snd e"
    unfolding line_of_def split by (rule takeWhile_neq_append [OF cr])
  moreover have "drop 2 (dropWhile (\<lambda>c. c \<noteq> CR) (header_line e @ rest)) = rest"
    unfolding split dropWhile_neq_append [OF cr] by simp
  moreover have "parse_line (fst e @ '': '' @ snd e) = e"
    using takeWhile_neq_append [OF col, of "'' '' @ snd e"] dropWhile_neq_append [OF col, of "'' '' @ snd e"]
    by (simp add: parse_line_def)
  moreover have "header_line e @ rest \<noteq> []" by (simp add: header_line_def)
  ultimately show ?thesis by (simp add: parse_headers.simps [of "header_line e @ rest"])
qed

lemma parse_header_lines: "list_all plain_header m \<Longrightarrow> parse_headers (concat (map header_line m)) = m"
  by (induction m) (simp_all add: parse_headers_line parse_headers.simps [of "[]"])

end
