(* ===== verification/Response.thy ===== *)
theory Response
  imports Remote_Context Headers
begin

text \<open>
  \<open>http/response.hpp\<close> and \<open>http/response.cpp\<close>: the synchronous response. It answers on
  the connection it was built for and then forgets it, so that later calls do nothing. A
  stream leaves its producer in the connection's context, which the model passes along.
\<close>

record response =
  rs_conn :: "mg_connection option"
  rs_headers :: headers

definition response_new :: "mg_connection \<Rightarrow> response" where
  "response_new conn = \<lparr>rs_conn = Some conn, rs_headers = headers_new\<rparr>"

definition response_send :: "int \<Rightarrow> string \<Rightarrow> response \<Rightarrow> response \<times> mg_call list" where
  "response_send code body r =
     (case rs_conn r of
        None \<Rightarrow> (r, [])
      | Some conn \<Rightarrow>
          let hs = headers_format False (rs_headers r)
          in (r\<lparr>rs_conn := None\<rparr>, [MgHttpReply (c_id conn) code (c_str hs) body]))"

definition response_send_status :: "status_code \<Rightarrow> string \<Rightarrow> response \<Rightarrow> response \<times> mg_call list" where
  "response_send_status code body r = response_send (status_int code) body r"

definition response_send_empty :: "int \<Rightarrow> response \<Rightarrow> response \<times> mg_call list" where
  "response_send_empty code r = response_send code '''' r"

definition response_send_status_empty :: "status_code \<Rightarrow> response \<Rightarrow> response \<times> mg_call list" where
  "response_send_status_empty code r = response_send_empty (status_int code) r"

definition response_stream ::
  "int \<Rightarrow> string \<Rightarrow> 'p \<Rightarrow> response \<times> 'p remote_context \<Rightarrow>
     (response \<times> 'p remote_context) \<times> mg_call list" where
  "response_stream code encoding producer rc =
     (let (r, ctx) = rc in
      case rs_conn r of
        None \<Rightarrow> ((r, ctx), [])
      | Some conn \<Rightarrow>
          let h1 = headers_remove ''Content-Length'' (rs_headers r);
              h2 = headers_set ''Transfer-Encoding'' encoding h1;
              preamble = format_preamble code (headers_format False h2);
              ctx' = set_stream producer ctx
          in ((r\<lparr>rs_headers := h2, rs_conn := None\<rparr>, ctx'), [MgSend (c_id conn) preamble]))"

text \<open>The overloads that take a \<open>status_code\<close> or leave the encoding to its default.\<close>

definition response_stream_status ::
  "status_code \<Rightarrow> string \<Rightarrow> 'p \<Rightarrow> response \<times> 'p remote_context \<Rightarrow>
     (response \<times> 'p remote_context) \<times> mg_call list" where
  "response_stream_status code encoding producer rc = response_stream (status_int code) encoding producer rc"

definition response_stream_status_chunked ::
  "status_code \<Rightarrow> 'p \<Rightarrow> response \<times> 'p remote_context \<Rightarrow>
     (response \<times> 'p remote_context) \<times> mg_call list" where
  "response_stream_status_chunked code producer rc =
     response_stream (status_int code) ''chunked'' producer rc"

definition response_stream_chunked ::
  "int \<Rightarrow> 'p \<Rightarrow> response \<times> 'p remote_context \<Rightarrow> (response \<times> 'p remote_context) \<times> mg_call list" where
  "response_stream_chunked code producer rc = response_stream code ''chunked'' producer rc"

definition response_update_headers :: "(headers \<Rightarrow> headers) \<Rightarrow> response \<Rightarrow> response" where
  "response_update_headers f r = r\<lparr>rs_headers := f (rs_headers r)\<rparr>"

subsection \<open>What a handler does\<close>

datatype 'p response_op =
    RHeaderSet string string
  | RHeaderRemove string
  | RHeaderClear
  | RSend int string
  | RStream int string 'p

fun response_do ::
  "'p response_op \<Rightarrow> response \<times> 'p remote_context \<Rightarrow> (response \<times> 'p remote_context) \<times> mg_call list" where
  "response_do (RHeaderSet n v) (r, ctx) = ((response_update_headers (headers_set n v) r, ctx), [])"
| "response_do (RHeaderRemove n) (r, ctx) = ((response_update_headers (headers_remove n) r, ctx), [])"
| "response_do RHeaderClear (r, ctx) = ((response_update_headers headers_clear r, ctx), [])"
| "response_do (RSend code body) (r, ctx) =
     (let (r', calls) = response_send code body r in ((r', ctx), calls))"
| "response_do (RStream code encoding producer) (r, ctx) =
     response_stream code encoding producer (r, ctx)"

lemma response_do_frame [simp]:
  "rc_endpoint (snd (fst (response_do op rc))) = rc_endpoint (snd rc)"
  "rc_tls_cert (snd (fst (response_do op rc))) = rc_tls_cert (snd rc)"
  by (cases op; cases rc;
      auto simp: response_stream_def response_send_def set_stream_def Let_def split: option.split)+

lemma response_do_no_wakeup: "k \<in> set (snd (response_do op rc)) \<Longrightarrow> \<not> is_wakeup k"
  by (cases op; cases rc)
    (auto simp: response_stream_def response_send_def Let_def split: option.splits)

lemma response_do_calls_ok [simp]: "list_all wakeup_ok (snd (response_do op rc))"
  by (auto simp: list_all_iff intro: wakeup_ok_net dest: response_do_no_wakeup)

lemma run_response_calls_ok [simp]: "list_all wakeup_ok (snd (run_ops response_do ops rc))"
  by (induction ops arbitrary: rc) (simp_all add: split_def Let_def)

interpretation rs_once: oneshot "\<lambda>rc. rs_conn (fst rc) \<noteq> None" response_do
proof unfold_locales
  fix s :: "response \<times> 'a remote_context" and a
  assume "\<not> rs_conn (fst s) \<noteq> None"
  then show "snd (response_do a s) = []" and "\<not> rs_conn (fst (fst (response_do a s))) \<noteq> None"
    by (cases a; cases s; simp add: response_send_def response_stream_def response_update_headers_def)+
next
  fix s :: "response \<times> 'a remote_context" and a
  assume "snd (response_do a s) \<noteq> []"
  then show "\<not> rs_conn (fst (fst (response_do a s))) \<noteq> None"
    by (cases a; cases s)
      (auto simp: response_send_def response_stream_def Let_def split: option.splits)
qed

end
