(* ===== verification/Async_Response.thy ===== *)
theory Async_Response
  imports Async_Stream Headers Common
begin

text \<open>
  \<open>http/async_response.cpp\<close>: the answer to a request that a worker thread gives later,
  either at once (\<open>send\<close>) or as a stream (\<open>stream\<close>). Only the first of them does
  anything; it prepares the payload and wakes the event loop. The shared pointer to the
  stream is a reference into the store of streams, \<open>None\<close> when null.
\<close>

datatype response_state = R_pending | R_sending | R_streaming | R_completed | R_failed

record payload =
  pl_code :: int
  pl_headers :: string
  pl_body :: string

record async_response =
  ar_conn :: ulong
  ar_id :: u64
  ar_headers :: headers
  ar_payload :: payload
  ar_state :: response_state
  ar_stream :: "nat option"

definition async_response_new :: "ulong \<Rightarrow> u64 \<Rightarrow> async_response" where
  "async_response_new conn rid =
     \<lparr>ar_conn = conn, ar_id = rid, ar_headers = headers_new,
      ar_payload = \<lparr>pl_code = -1, pl_headers = '''', pl_body = ''''\<rparr>,
      ar_state = R_pending, ar_stream = None\<rparr>"

definition async_response_send ::
  "'p mg_env \<Rightarrow> int \<Rightarrow> string \<Rightarrow> async_response \<Rightarrow> async_response \<times> mg_call list" where
  "async_response_send E code body r =
     (if ar_state r \<noteq> R_pending then (r, [])
      else if env_mgr_alive E then
        let r1 = r\<lparr>ar_payload := \<lparr>pl_code = code,
                                   pl_headers = headers_format False (ar_headers r),
                                   pl_body = body\<rparr>\<rparr>
        in if \<not> env_wakeup E (ar_conn r1) (size_t_bytes (ar_id r1))
           then (r1\<lparr>ar_state := R_failed\<rparr>, [MgWakeup (ar_conn r1) (size_t_bytes (ar_id r1))])
           else (r1\<lparr>ar_state := R_sending\<rparr>, [MgWakeup (ar_conn r1) (size_t_bytes (ar_id r1))])
      else (r\<lparr>ar_state := R_failed\<rparr>, []))"

text \<open>The overloads that take a \<open>status_code\<close> or no body.\<close>

definition async_response_send_status ::
  "'p mg_env \<Rightarrow> status_code \<Rightarrow> string \<Rightarrow> async_response \<Rightarrow> async_response \<times> mg_call list" where
  "async_response_send_status E code body r = async_response_send E (status_int code) body r"

definition async_response_send_empty ::
  "'p mg_env \<Rightarrow> int \<Rightarrow> async_response \<Rightarrow> async_response \<times> mg_call list" where
  "async_response_send_empty E code r = async_response_send E code '''' r"

definition async_response_send_status_empty ::
  "'p mg_env \<Rightarrow> status_code \<Rightarrow> async_response \<Rightarrow> async_response \<times> mg_call list" where
  "async_response_send_status_empty E code r = async_response_send_empty E (status_int code) r"

text \<open>
  \<open>stream\<close>: the response afterwards, the stream it created (to be stored at the fresh
  reference \<open>ref\<close>), the pointer it returns and its calls.
\<close>

definition async_response_stream ::
  "'p mg_env \<Rightarrow> int \<Rightarrow> string \<Rightarrow> nat \<Rightarrow> async_response \<Rightarrow>
     async_response \<times> async_stream option \<times> nat option \<times> mg_call list" where
  "async_response_stream E code encoding ref r =
     (if ar_state r \<noteq> R_pending then (r, None, None, [])
      else if env_mgr_alive E then
        let h1 = headers_remove ''Content-Length'' (ar_headers r);
            h2 = headers_set ''Transfer-Encoding'' encoding h1;
            preamble = format_preamble code (headers_format False h2);
            s = async_stream_new (ar_conn r) (ar_id r) preamble;
            r1 = r\<lparr>ar_headers := h2, ar_stream := Some ref\<rparr>
        in if \<not> env_wakeup E (ar_conn r1) (size_t_bytes (ar_id r1))
           then (r1\<lparr>ar_state := R_failed\<rparr>, Some s, None,
                 [MgWakeup (ar_conn r1) (size_t_bytes (ar_id r1))])
           else (r1\<lparr>ar_state := R_streaming\<rparr>, Some s, Some ref,
                 [MgWakeup (ar_conn r1) (size_t_bytes (ar_id r1))])
      else (r\<lparr>ar_state := R_failed\<rparr>, None, None, []))"

definition async_response_stream_status ::
  "'p mg_env \<Rightarrow> status_code \<Rightarrow> string \<Rightarrow> nat \<Rightarrow> async_response \<Rightarrow>
     async_response \<times> async_stream option \<times> nat option \<times> mg_call list" where
  "async_response_stream_status E code encoding ref r =
     async_response_stream E (status_int code) encoding ref r"

definition async_response_mark_completed :: "async_response \<Rightarrow> async_response" where
  "async_response_mark_completed r = r\<lparr>ar_state := R_completed\<rparr>"

definition async_response_mark_failed :: "async_response \<Rightarrow> async_response" where
  "async_response_mark_failed r = r\<lparr>ar_state := R_failed\<rparr>"

definition async_response_get_id :: "async_response \<Rightarrow> u64" where
  "async_response_get_id r = ar_id r"

definition async_response_get_payload :: "async_response \<Rightarrow> payload" where
  "async_response_get_payload r = ar_payload r"

definition async_response_get_state :: "async_response \<Rightarrow> response_state" where
  "async_response_get_state r = ar_state r"

text \<open>\<open>get_stream\<close> moves the pointer out.\<close>

definition async_response_get_stream :: "async_response \<Rightarrow> nat option \<times> async_response" where
  "async_response_get_stream r = (ar_stream r, r\<lparr>ar_stream := None\<rparr>)"

definition async_response_update_headers :: "(headers \<Rightarrow> headers) \<Rightarrow> async_response \<Rightarrow> async_response" where
  "async_response_update_headers f r = r\<lparr>ar_headers := f (ar_headers r)\<rparr>"

subsection \<open>Order of the states\<close>

text \<open>The enumerators compare by their position, as the built-in operators of C++ do.\<close>

primrec response_state_index :: "response_state \<Rightarrow> nat" where
  "response_state_index R_pending = 0"
| "response_state_index R_sending = 1"
| "response_state_index R_streaming = 2"
| "response_state_index R_completed = 3"
| "response_state_index R_failed = 4"

lemma response_state_index_inject: "response_state_index a = response_state_index b \<Longrightarrow> a = b"
  by (cases a; cases b) auto

instantiation response_state :: linorder
begin

definition less_eq_response_state :: "response_state \<Rightarrow> response_state \<Rightarrow> bool" where
  "less_eq_response_state a b \<longleftrightarrow> response_state_index a \<le> response_state_index b"

definition less_response_state :: "response_state \<Rightarrow> response_state \<Rightarrow> bool" where
  "less_response_state a b \<longleftrightarrow> response_state_index a < response_state_index b"

instance
  by intro_classes
    (auto simp: less_eq_response_state_def less_response_state_def response_state_index_inject)

end

subsection \<open>Frame\<close>

lemma async_response_send_frame [simp]:
  "ar_conn (fst (async_response_send E code body r)) = ar_conn r"
  "ar_id (fst (async_response_send E code body r)) = ar_id r"
  "ar_stream (fst (async_response_send E code body r)) = ar_stream r"
  by (simp_all add: async_response_send_def Let_def)

lemma async_response_stream_frame [simp]:
  "ar_conn (fst (async_response_stream E code enc ref r)) = ar_conn r"
  "ar_id (fst (async_response_stream E code enc ref r)) = ar_id r"
  by (simp_all add: async_response_stream_def Let_def)

lemma async_response_mark_frame [simp]:
  "ar_conn (async_response_mark_completed r) = ar_conn r"
  "ar_id (async_response_mark_completed r) = ar_id r"
  "ar_conn (async_response_mark_failed r) = ar_conn r"
  "ar_id (async_response_mark_failed r) = ar_id r"
  "ar_state (async_response_mark_failed r) = R_failed"
  "ar_state (async_response_mark_completed r) = R_completed"
  by (simp_all add: async_response_mark_completed_def async_response_mark_failed_def)

lemma async_response_send_state:
  "ar_state (fst (async_response_send E code body r)) =
     (if ar_state r \<noteq> R_pending then ar_state r
      else if env_mgr_alive E \<and> env_wakeup E (ar_conn r) (size_t_bytes (ar_id r)) then R_sending
      else R_failed)"
  by (simp add: async_response_send_def Let_def)

lemma async_response_stream_state:
  "ar_state (fst (async_response_stream E code enc ref r)) =
     (if ar_state r \<noteq> R_pending then ar_state r
      else if env_mgr_alive E \<and> env_wakeup E (ar_conn r) (size_t_bytes (ar_id r)) then R_streaming
      else R_failed)"
  by (simp add: async_response_stream_def Let_def)

text \<open>
  What \<open>stream\<close> leaves behind: a stream that was created belongs to the request and is
  referenced by the response; the pointer is returned only when the response streams.
\<close>

lemma async_response_stream_created:
  "fst (snd (async_response_stream E code enc ref r)) =
     (if ar_state r = R_pending \<and> env_mgr_alive E
      then Some (async_stream_new (ar_conn r) (ar_id r)
             (format_preamble code (headers_format False
               (headers_set ''Transfer-Encoding'' enc (headers_remove ''Content-Length'' (ar_headers r))))))
      else None)"
  by (simp add: async_response_stream_def Let_def)

lemma async_response_stream_pointer:
  "ar_stream (fst (async_response_stream E code enc ref r)) =
     (if ar_state r = R_pending \<and> env_mgr_alive E then Some ref else ar_stream r)"
  by (simp add: async_response_stream_def Let_def)

lemma async_response_stream_result:
  "fst (snd (snd (async_response_stream E code enc ref r))) =
     (if ar_state r = R_pending \<and> ar_state (fst (async_response_stream E code enc ref r)) = R_streaming
      then Some ref else None)"
  by (simp add: async_response_stream_def Let_def)

subsection \<open>Operations of a worker\<close>

text \<open>
  What a holder of the shared pointer can do with a response, the stream it may create
  going to the store by \<open>World\<close>.
\<close>

datatype async_response_op =
    AHeaderSet string string
  | AHeaderRemove string
  | AHeaderClear
  | ASend int string
  | AStream int string

fun async_response_do ::
  "'p mg_env \<Rightarrow> nat \<Rightarrow> async_response_op \<Rightarrow> async_response \<Rightarrow>
     async_response \<times> async_stream option \<times> nat option \<times> mg_call list" where
  "async_response_do E ref (AHeaderSet n v) r =
     (async_response_update_headers (headers_set n v) r, None, None, [])"
| "async_response_do E ref (AHeaderRemove n) r =
     (async_response_update_headers (headers_remove n) r, None, None, [])"
| "async_response_do E ref AHeaderClear r =
     (async_response_update_headers headers_clear r, None, None, [])"
| "async_response_do E ref (ASend code body) r =
     (let (r', calls) = async_response_send E code body r in (r', None, None, calls))"
| "async_response_do E ref (AStream code encoding) r = async_response_stream E code encoding ref r"

lemma async_response_do_frame [simp]:
  "ar_conn (fst (async_response_do E ref op r)) = ar_conn r"
  "ar_id (fst (async_response_do E ref op r)) = ar_id r"
  by (cases op; simp add: async_response_update_headers_def split_def Let_def)+

lemma async_response_do_calls_ok [simp]: "list_all wakeup_ok (snd (snd (snd (async_response_do E ref op r))))"
  by (cases op) (auto simp: async_response_send_def async_response_stream_def split_def Let_def)

text \<open>The state only ever goes up.\<close>

lemma async_response_do_mono: "ar_state r \<le> ar_state (fst (async_response_do E ref op r))"
  by (cases op) (auto simp: async_response_update_headers_def split_def Let_def async_response_send_state
      async_response_stream_state less_eq_response_state_def)

subsection \<open>A response answers once\<close>

text \<open>The two answering operations as one, with the calls they make as output.\<close>

definition async_response_answer ::
  "'p mg_env \<Rightarrow> nat \<Rightarrow> async_response_op \<Rightarrow> async_response \<Rightarrow> async_response \<times> mg_call list" where
  "async_response_answer E ref op r =
     (fst (async_response_do E ref op r), snd (snd (snd (async_response_do E ref op r))))"

interpretation ar_once: oneshot "\<lambda>r. ar_state r = R_pending" "async_response_answer E ref"
proof unfold_locales
  fix s :: async_response and a
  assume dead: "ar_state s \<noteq> R_pending"
  show "snd (async_response_answer E ref a s) = []"
    using dead by (cases a) (simp_all add: async_response_answer_def split_def Let_def
        async_response_send_def async_response_stream_def)
  show "ar_state (fst (async_response_answer E ref a s)) \<noteq> R_pending"
    using dead by (cases a) (simp_all add: async_response_answer_def split_def Let_def
        async_response_send_state async_response_stream_state async_response_update_headers_def)
next
  fix s :: async_response and a
  assume "snd (async_response_answer E ref a s) \<noteq> []"
  then show "ar_state (fst (async_response_answer E ref a s)) \<noteq> R_pending"
    by (cases a) (simp_all add: async_response_answer_def split_def Let_def
        async_response_send_state async_response_stream_state)
qed

end
