(* ===== verification/Endpoint.thy ===== *)
theory Endpoint
  imports Tls_Material Request Response Async_Response
begin

text \<open>
  \<open>endpoint.hpp\<close>, \<open>http/endpoint.hpp\<close>, \<open>http/listener.hpp\<close> and \<open>http/internal/asset.hpp\<close>:
  the state of an endpoint and the registration of routes. Event handling is in \<open>Handlers\<close>.

  A handler is what it makes of a request: the operations it performs on the response. It is
  given the environment as well, which can differ at every event, so it can depend on
  whatever state the user's closure keeps.
\<close>

subsection \<open>Listeners\<close>

datatype 'p callback =
    SyncCallback "'p mg_env \<Rightarrow> request \<Rightarrow> 'p response_op list"
  | AsyncCallback "'p mg_env \<Rightarrow> request \<Rightarrow> async_response_op list"

record 'p listener =
  l_groups :: u64
  l_callback :: "'p callback"

definition lambda_http_listener :: "'p callback \<Rightarrow> u64 \<Rightarrow> 'p listener" where
  "lambda_http_listener callback groups = \<lparr>l_groups = groups, l_callback = callback\<rparr>"

definition listener_get_groups :: "'p listener \<Rightarrow> u64" where
  "listener_get_groups l = l_groups l"

definition listener_is_async :: "'p listener \<Rightarrow> bool" where
  "listener_is_async l = (case l_callback l of SyncCallback _ \<Rightarrow> False | AsyncCallback _ \<Rightarrow> True)"

definition listener_invoke_sync :: "'p listener \<Rightarrow> 'p mg_env \<Rightarrow> request \<Rightarrow> 'p response_op list" where
  "listener_invoke_sync l E req =
     (case l_callback l of SyncCallback f \<Rightarrow> f E req | AsyncCallback _ \<Rightarrow> [])"

definition listener_invoke_async :: "'p listener \<Rightarrow> 'p mg_env \<Rightarrow> request \<Rightarrow> async_response_op list" where
  "listener_invoke_async l E req =
     (case l_callback l of SyncCallback _ \<Rightarrow> [] | AsyncCallback f \<Rightarrow> f E req)"

subsection \<open>The endpoint\<close>

record asset =
  a_is_dir :: bool
  a_path :: string
  a_mime_type :: string
  a_headers :: string

definition asset_default :: asset where
  "asset_default = \<lparr>a_is_dir = False, a_path = '''', a_mime_type = '''', a_headers = ''''\<rparr>"

type_synonym responses = "(u64, nat) umap"
type_synonym streams = "(u64, nat option) umap"

record 'p endpoint =
  ep_host :: string
  ep_conn :: "ulong option"
  ep_tls :: tls_material
  ep_assets :: "(string, asset) umap"
  ep_listeners :: "(string, 'p listener) umap"
  ep_fallback :: "'p listener option"
  ep_request_counter :: u64
  ep_pending_responses :: "(ulong, responses) umap"
  ep_pending_streams :: "(ulong, streams) umap"

definition endpoint_new :: "string \<Rightarrow> 'p endpoint" where
  "endpoint_new host =
     \<lparr>ep_host = host, ep_conn = None, ep_tls = tls_material_new, ep_assets = [], ep_listeners = [],
      ep_fallback = None, ep_request_counter = 0, ep_pending_responses = [], ep_pending_streams = []\<rparr>"

definition endpoint_get_host :: "'p endpoint \<Rightarrow> string" where
  "endpoint_get_host ep = ep_host ep"

definition endpoint_setup :: "mg_connection \<Rightarrow> 'p endpoint \<Rightarrow> mg_connection \<times> 'p endpoint" where
  "endpoint_setup conn ep = (conn\<lparr>c_data0 := CHR ''E''\<rparr>, ep\<lparr>ep_conn := Some (c_id conn)\<rparr>)"

subsection \<open>Routes\<close>

fun count_groups_from :: "u64 \<Rightarrow> string \<Rightarrow> u64" where
  "count_groups_from groups [] = groups"
| "count_groups_from groups (c # path) =
     count_groups_from (if c = CHR ''?'' \<or> c = CHR ''*'' \<or> c = CHR ''#'' then groups + 1 else groups) path"

definition count_groups :: "string \<Rightarrow> u64" where
  "count_groups path = count_groups_from 0 path"

definition on_request ::
  "string \<Rightarrow> ('p mg_env \<Rightarrow> request \<Rightarrow> 'p response_op list) \<Rightarrow> 'p endpoint \<Rightarrow> 'p endpoint" where
  "on_request path callback ep =
     ep\<lparr>ep_listeners := um_put (=) path (lambda_http_listener (SyncCallback callback) (count_groups path))
                         (ep_listeners ep)\<rparr>"

definition on_async_request ::
  "string \<Rightarrow> ('p mg_env \<Rightarrow> request \<Rightarrow> async_response_op list) \<Rightarrow> 'p endpoint \<Rightarrow> 'p endpoint" where
  "on_async_request path callback ep =
     ep\<lparr>ep_listeners := um_put (=) path (lambda_http_listener (AsyncCallback callback) (count_groups path))
                         (ep_listeners ep)\<rparr>"

definition on_fallback ::
  "('p mg_env \<Rightarrow> request \<Rightarrow> 'p response_op list) \<Rightarrow> 'p endpoint \<Rightarrow> 'p endpoint" where
  "on_fallback callback ep = ep\<lparr>ep_fallback := Some (lambda_http_listener (SyncCallback callback) 0)\<rparr>"

definition on_async_fallback ::
  "('p mg_env \<Rightarrow> request \<Rightarrow> async_response_op list) \<Rightarrow> 'p endpoint \<Rightarrow> 'p endpoint" where
  "on_async_fallback callback ep =
     ep\<lparr>ep_fallback := Some (lambda_http_listener (AsyncCallback callback) 0)\<rparr>"

text \<open>\<open>m_assets[path]\<close>: the entry, a default one when the path is new.\<close>

definition asset_at :: "string \<Rightarrow> 'p endpoint \<Rightarrow> asset" where
  "asset_at path ep = (case um_find (=) (ep_assets ep) path of None \<Rightarrow> asset_default | Some a \<Rightarrow> a)"

definition on_asset :: "string \<Rightarrow> string \<Rightarrow> string \<Rightarrow> headers \<Rightarrow> 'p endpoint \<Rightarrow> 'p endpoint" where
  "on_asset path asset mime_type hs ep =
     ep\<lparr>ep_assets := um_put (=) path
          ((asset_at path ep)\<lparr>a_path := asset, a_mime_type := mime_type, a_headers := headers_format True hs\<rparr>)
          (ep_assets ep)\<rparr>"

definition on_asset_default :: "string \<Rightarrow> string \<Rightarrow> 'p endpoint \<Rightarrow> 'p endpoint" where
  "on_asset_default path asset ep = on_asset path asset '''' headers_new ep"

definition on_asset_mime :: "string \<Rightarrow> string \<Rightarrow> string \<Rightarrow> 'p endpoint \<Rightarrow> 'p endpoint" where
  "on_asset_mime path asset mime_type ep = on_asset path asset mime_type headers_new ep"

text \<open>\<open>on_assets(path, assets, ...)\<close> with its variadic tail as a list of pairs.\<close>

fun on_assets :: "(string \<times> string) list \<Rightarrow> 'p endpoint \<Rightarrow> 'p endpoint" where
  "on_assets [] ep = ep"
| "on_assets ((path, assets) # args) ep =
     on_assets args
       (ep\<lparr>ep_assets := um_put (=) path ((asset_at path ep)\<lparr>a_is_dir := True, a_path := assets\<rparr>) (ep_assets ep)\<rparr>)"

subsection \<open>Pending requests\<close>

text \<open>\<open>m[conn][id] = x\<close> and the lookup through both levels.\<close>

definition pend_put ::
  "ulong \<Rightarrow> u64 \<Rightarrow> 'x \<Rightarrow> (ulong, (u64, 'x) umap) umap \<Rightarrow> (ulong, (u64, 'x) umap) umap" where
  "pend_put conn rid x m =
     um_put (=) conn (um_put (=) rid x (case um_find (=) m conn of None \<Rightarrow> [] | Some inner \<Rightarrow> inner)) m"

definition pend_find :: "(ulong, (u64, 'x) umap) umap \<Rightarrow> ulong \<Rightarrow> u64 \<Rightarrow> 'x option" where
  "pend_find m conn rid =
     (case um_find (=) m conn of None \<Rightarrow> None | Some inner \<Rightarrow> um_find (=) inner rid)"

definition pend_ok :: "(ulong, (u64, 'x) umap) umap \<Rightarrow> bool" where
  "pend_ok m \<longleftrightarrow> um_ok (=) m \<and> (\<forall>c inner. um_find (=) m c = Some inner \<longrightarrow> um_ok (=) inner)"

lemma pend_ok_empty [simp]: "pend_ok []"
  by (simp add: pend_ok_def)

lemma pend_find_empty [simp]: "pend_find [] c i = None"
  by (simp add: pend_find_def)

lemma pend_find_put:
  assumes "pend_ok m"
  shows "pend_find (pend_put c i x m) c' i' = (if c = c' \<and> i = i' then Some x else pend_find m c' i')"
proof -
  have "um_ok (=) m" using assms by (simp add: pend_ok_def)
  moreover have "um_ok (=) (case um_find (=) m c of None \<Rightarrow> [] | Some inner \<Rightarrow> inner)"
    using assms by (auto simp: pend_ok_def split: option.split)
  ultimately show ?thesis
    by (auto simp: pend_find_def pend_put_def um.lookup_put split: option.split)
qed

lemma pend_ok_put:
  assumes "pend_ok m"
  shows "pend_ok (pend_put c i x m)"
proof -
  have "um_ok (=) m" using assms by (simp add: pend_ok_def)
  moreover have "um_ok (=) (case um_find (=) m c of None \<Rightarrow> [] | Some inner \<Rightarrow> inner)"
    using assms by (auto simp: pend_ok_def split: option.split)
  ultimately show ?thesis
    using assms by (auto simp: pend_ok_def pend_put_def um.lookup_put um.ok_put split: if_splits)
qed

lemma pend_find_erase_conn: "pend_ok m \<Longrightarrow> pend_find (um_erase (=) c m) c' i = (if c = c' then None else pend_find m c' i)"
  by (simp add: pend_find_def pend_ok_def um.lookup_erase)

lemma pend_ok_erase_conn: "pend_ok m \<Longrightarrow> pend_ok (um_erase (=) c m)"
  by (auto simp: pend_ok_def um.lookup_erase um.ok_erase split: if_splits)

text \<open>Replacing the inner map of one connection by a part of it.\<close>

lemma pend_find_put_conn:
  "pend_ok m \<Longrightarrow> pend_find (um_put (=) c inner m) c' i = (if c = c' then um_find (=) inner i else pend_find m c' i)"
  by (simp add: pend_find_def pend_ok_def um.lookup_put)

lemma pend_ok_put_conn: "pend_ok m \<Longrightarrow> um_ok (=) inner \<Longrightarrow> pend_ok (um_put (=) c inner m)"
  by (auto simp: pend_ok_def um.lookup_put um.ok_put split: if_splits)

subsection \<open>Counting capture groups\<close>

definition is_wildcard :: "char \<Rightarrow> bool" where
  "is_wildcard c \<longleftrightarrow> c = CHR ''?'' \<or> c = CHR ''*'' \<or> c = CHR ''#''"

lemma count_groups_from_eq: "count_groups_from n path = n + of_nat (length (filter is_wildcard path))"
  by (induction path arbitrary: n) (auto simp: is_wildcard_def)

lemma count_groups_unat:
  assumes "length path < 2 ^ 64"
  shows "unat (count_groups path) = length (filter is_wildcard path)"
proof -
  have "length (filter is_wildcard path) < 2 ^ 64"
    using assms length_filter_le [of is_wildcard path] by linarith
  then show ?thesis by (simp add: count_groups_def count_groups_from_eq unat_of_nat)
qed

end
