(* ===== verification/World.thy ===== *)
theory World
  imports Endpoint
begin

text \<open>
  The state the event loop and the workers share: the endpoint, the stores of the objects
  that are held by pointer (responses, streams, connection contexts, certificates), and the
  calls made so far, oldest first. A reference is an index into a store; an entry that is
  missing is an object that does not exist any more, and using it yields \<open>None\<close>: null or
  dangling pointers are explicit outcomes of the model.
\<close>

record 'p world =
  w_ep :: "'p endpoint"
  w_next :: nat
  w_resp :: "nat \<rightharpoonup> async_response"
  w_strm :: "nat \<rightharpoonup> async_stream"
  w_ctx :: "nat \<rightharpoonup> 'p remote_context"
  w_cert :: "nat \<rightharpoonup> tls_cert_info"
  w_calls :: "mg_call list"

definition world_new :: "string \<Rightarrow> 'p world" where
  "world_new host =
     \<lparr>w_ep = endpoint_new host, w_next = 0, w_resp = Map.empty, w_strm = Map.empty,
      w_ctx = Map.empty, w_cert = Map.empty, w_calls = []\<rparr>"

definition emit :: "mg_call list \<Rightarrow> 'p world \<Rightarrow> 'p world" where
  "emit calls w = w\<lparr>w_calls := w_calls w @ calls\<rparr>"

definition set_resp :: "nat \<Rightarrow> async_response \<Rightarrow> 'p world \<Rightarrow> 'p world" where
  "set_resp ref r w = w\<lparr>w_resp := (w_resp w)(ref \<mapsto> r)\<rparr>"

definition set_strm :: "nat \<Rightarrow> async_stream \<Rightarrow> 'p world \<Rightarrow> 'p world" where
  "set_strm ref s w = w\<lparr>w_strm := (w_strm w)(ref \<mapsto> s)\<rparr>"

definition set_ctx :: "nat \<Rightarrow> 'p remote_context \<Rightarrow> 'p world \<Rightarrow> 'p world" where
  "set_ctx ref c w = w\<lparr>w_ctx := (w_ctx w)(ref \<mapsto> c)\<rparr>"

definition set_pending_responses :: "(ulong, responses) umap \<Rightarrow> 'p world \<Rightarrow> 'p world" where
  "set_pending_responses m w = w\<lparr>w_ep := (w_ep w)\<lparr>ep_pending_responses := m\<rparr>\<rparr>"

definition set_pending_streams :: "(ulong, streams) umap \<Rightarrow> 'p world \<Rightarrow> 'p world" where
  "set_pending_streams m w = w\<lparr>w_ep := (w_ep w)\<lparr>ep_pending_streams := m\<rparr>\<rparr>"

abbreviation pending_responses :: "'p world \<Rightarrow> (ulong, responses) umap" where
  "pending_responses w \<equiv> ep_pending_responses (w_ep w)"

abbreviation pending_streams :: "'p world \<Rightarrow> (ulong, streams) umap" where
  "pending_streams w \<equiv> ep_pending_streams (w_ep w)"

lemmas world_defs =
  emit_def set_resp_def set_strm_def set_ctx_def set_pending_responses_def set_pending_streams_def

subsection \<open>Loops over pointers\<close>

text \<open>\<open>for (p : ps) p->f()\<close>, undefined when a pointer is null or dangling.\<close>

fun heap_foreach :: "('o \<Rightarrow> 'o) \<Rightarrow> nat option list \<Rightarrow> (nat \<rightharpoonup> 'o) \<Rightarrow> (nat \<rightharpoonup> 'o) option" where
  "heap_foreach f [] heap = Some heap"
| "heap_foreach f (p # ps) heap =
     (case p of
        None \<Rightarrow> None
      | Some ref \<Rightarrow>
          (case heap ref of
             None \<Rightarrow> None
           | Some x \<Rightarrow> heap_foreach f ps (heap(ref \<mapsto> f x))))"

text \<open>An idempotent \<open>f\<close> reaches each object pointed to, whichever order the loop takes.\<close>

lemma heap_foreach_idem:
  assumes idem: "\<And>x. f (f x) = f x" and "list_all (\<lambda>p. \<exists>ref x. p = Some ref \<and> heap ref = Some x) ps"
  shows "heap_foreach f ps heap =
    Some (\<lambda>ref. if Some ref \<in> set ps then map_option f (heap ref) else heap ref)"
  using assms(2)
proof (induction ps arbitrary: heap)
  case Nil
  then show ?case by simp
next
  case (Cons p ps)
  then obtain ref x where p: "p = Some ref" and x: "heap ref = Some x" by auto
  have "list_all (\<lambda>p. \<exists>r y. p = Some r \<and> (heap(ref \<mapsto> f x)) r = Some y) ps"
    using Cons.prems by (fastforce simp: list_all_iff)
  note IH = Cons.IH [OF this]
  have "heap_foreach f (p # ps) heap = heap_foreach f ps (heap(ref \<mapsto> f x))"
    using p x by simp
  also have "\<dots> = Some (\<lambda>r. if Some r \<in> set ps then map_option f ((heap(ref \<mapsto> f x)) r)
      else (heap(ref \<mapsto> f x)) r)"
    by (rule IH)
  also have "\<dots> = Some (\<lambda>r. if Some r \<in> set (p # ps) then map_option f (heap r) else heap r)"
    using p x by (intro arg_cong [where f = Some] ext) (simp add: idem)
  finally show ?case .
qed

subsection \<open>Operations of a worker on shared objects\<close>

text \<open>The world afterwards and, for \<open>stream\<close>, the pointer it returned.\<close>

definition response_op ::
  "'p mg_env \<Rightarrow> nat \<Rightarrow> async_response_op \<Rightarrow> 'p world \<Rightarrow> ('p world \<times> nat option) option" where
  "response_op E ref op w =
     (case w_resp w ref of
        None \<Rightarrow> None
      | Some r \<Rightarrow>
          let (r', created, res, calls) = async_response_do E (w_next w) op r;
              w1 = set_resp ref r' w;
              w2 = (case created of
                      None \<Rightarrow> w1
                    | Some s \<Rightarrow> set_strm (w_next w) s (w1\<lparr>w_next := Suc (w_next w)\<rparr>))
          in Some (emit calls w2, res))"

fun response_ops :: "'p mg_env \<Rightarrow> nat \<Rightarrow> async_response_op list \<Rightarrow> 'p world \<Rightarrow> 'p world option" where
  "response_ops E ref [] w = Some w"
| "response_ops E ref (op # ops) w =
     (case response_op E ref op w of None \<Rightarrow> None | Some (w', _) \<Rightarrow> response_ops E ref ops w')"

definition stream_send_op :: "'p mg_env \<Rightarrow> nat \<Rightarrow> string \<Rightarrow> 'p world \<Rightarrow> 'p world option" where
  "stream_send_op E ref body w =
     (case w_strm w ref of
        None \<Rightarrow> None
      | Some s \<Rightarrow> let (s', calls) = async_stream_send E body s in Some (emit calls (set_strm ref s' w)))"

definition stream_close_op :: "'p mg_env \<Rightarrow> nat \<Rightarrow> 'p world \<Rightarrow> 'p world option" where
  "stream_close_op E ref w =
     (case w_strm w ref of
        None \<Rightarrow> None
      | Some s \<Rightarrow> let (s', calls) = async_stream_close E s in Some (emit calls (set_strm ref s' w)))"

text \<open>Locking a weak pointer to a certificate.\<close>

definition cert_lock :: "nat option \<Rightarrow> 'p world \<Rightarrow> tls_cert_info option" where
  "cert_lock p w = (case p of None \<Rightarrow> None | Some k \<Rightarrow> w_cert w k)"

end
