(* ===== verification/Handlers.thy ===== *)
theory Handlers
  imports World
begin

text \<open>
  The event handlers of \<open>http/endpoint.cpp\<close>. Each takes the connection mongoose calls it
  with and the world, and returns \<open>None\<close> where the code would use a pointer that is null,
  dangling or of the wrong type. Handlers that write to the connection return it as well.
\<close>

subsection \<open>Replies of the library\<close>

definition not_found_reply :: "mg_connection \<Rightarrow> mg_call" where
  "not_found_reply conn =
     MgHttpReply (c_id conn) 404 (''Content-Type: text/plain'' @ crlf) (''Not Found'' @ [LF])"

definition internal_server_error_reply :: "mg_connection \<Rightarrow> mg_call" where
  "internal_server_error_reply conn =
     MgHttpReply (c_id conn) 500 (''Content-Type: text/plain'' @ crlf) (''Internal Server Error'' @ [LF])"

text \<open>\<open>static_cast<remote_context*>(conn->fn_data)\<close>, dereferenced.\<close>

definition context_of :: "mg_connection \<Rightarrow> 'p world \<Rightarrow> (nat \<times> 'p remote_context) option" where
  "context_of conn w =
     (case c_fn_data conn of
        FnContext k \<Rightarrow> (case w_ctx w k of None \<Rightarrow> None | Some ctx \<Rightarrow> Some (k, ctx))
      | FnNull \<Rightarrow> None
      | FnEndpoint _ \<Rightarrow> None)"

subsection \<open>Poll\<close>

fun poll_loop ::
  "mg_connection \<Rightarrow> (nat \<rightharpoonup> async_response) \<Rightarrow> responses \<Rightarrow> (responses \<times> mg_call list) option" where
  "poll_loop conn heap [] = Some ([], [])"
| "poll_loop conn heap ((rid, ref) # rest) =
     (case heap ref of
        None \<Rightarrow> None
      | Some r \<Rightarrow>
          if async_response_get_state r = R_failed then
            (case poll_loop conn heap rest of
               None \<Rightarrow> None
             | Some (rest', calls) \<Rightarrow> Some (rest', internal_server_error_reply conn # calls))
          else
            (case poll_loop conn heap rest of
               None \<Rightarrow> None
             | Some (rest', calls) \<Rightarrow> Some ((rid, ref) # rest', calls)))"

definition handle_poll :: "mg_connection \<Rightarrow> 'p world \<Rightarrow> 'p world option" where
  "handle_poll conn w =
     (case um_find (=) (pending_responses w) (c_id conn) of
        None \<Rightarrow> Some w
      | Some responses \<Rightarrow>
          (case poll_loop conn (w_resp w) responses of
             None \<Rightarrow> None
           | Some (rest, calls) \<Rightarrow>
               Some (emit calls
                 (set_pending_responses (um_put (=) (c_id conn) rest (pending_responses w)) w))))"

subsection \<open>HTTP messages\<close>

text \<open>The first listener in iteration order whose pattern matches, with its captures.\<close>

fun find_listener ::
  "'p mg_env \<Rightarrow> mg_str \<Rightarrow> (string, 'p listener) umap \<Rightarrow> ('p listener \<times> mg_str list) option" where
  "find_listener E uri [] = None"
| "find_listener E uri ((path, listener) # rest) =
     (let groups = replicate (unat (listener_get_groups listener + 1)) mg_null;
          (matches, groups') = env_match E uri path groups
      in if matches then Some (listener, groups') else find_listener E uri rest)"

fun find_asset :: "'p mg_env \<Rightarrow> mg_str \<Rightarrow> (string, asset) umap \<Rightarrow> (string \<times> asset) option" where
  "find_asset E uri [] = None"
| "find_asset E uri ((path, asset) # rest) =
     (if fst (env_match E uri path []) then Some (path, asset) else find_asset E uri rest)"

text \<open>Registering an asynchronous response: the new entry and its reference.\<close>

definition add_pending :: "mg_connection \<Rightarrow> 'p world \<Rightarrow> 'p world \<times> nat" where
  "add_pending conn w =
     (let ep = w_ep w;
          rid = ep_request_counter ep;
          ref = w_next w;
          ep' = ep\<lparr>ep_request_counter := ep_request_counter ep + 1,
                   ep_pending_responses := pend_put (c_id conn) rid ref (ep_pending_responses ep)\<rparr>
      in (set_resp ref (async_response_new (c_id conn) rid) (w\<lparr>w_ep := ep', w_next := Suc ref\<rparr>), ref))"

definition invoke_listener ::
  "'p mg_env \<Rightarrow> mg_connection \<Rightarrow> mg_http_message \<Rightarrow> mg_str list \<Rightarrow> 'p listener \<Rightarrow> 'p world \<Rightarrow> 'p world option" where
  "invoke_listener E conn msg groups listener w =
     (case context_of conn w of
        None \<Rightarrow> None
      | Some (k, context) \<Rightarrow>
          let request = request_new msg (remote_context_get_remote_ip context)
                          (remote_context_get_tls_cert_info context) groups
          in if listener_is_async listener then
               let (w1, ref) = add_pending conn w
               in response_ops E ref (listener_invoke_async listener E request) w1
             else
               let ((_, context'), calls) =
                     run_ops response_do (listener_invoke_sync listener E request)
                       (response_new conn, context)
               in Some (emit calls (set_ctx k context' w)))"

definition serve_asset :: "mg_connection \<Rightarrow> string \<Rightarrow> asset \<Rightarrow> mg_call list" where
  "serve_asset conn path asset =
     (let opts = \<lparr>so_root_dir = None,
                  so_extra_headers = (if a_headers asset = '''' then None else Some (c_str (a_headers asset))),
                  so_mime_types = (if a_mime_type asset = '''' then None else Some (c_str (a_mime_type asset)))\<rparr>
      in if a_is_dir asset then
           let root_dir = take (unat (of_nat (length path) - 2 :: u64)) path @ ''='' @ a_path asset
           in [MgHttpServeDir (c_id conn) (opts\<lparr>so_root_dir := Some (c_str root_dir)\<rparr>)]
         else [MgHttpServeFile (c_id conn) (c_str (a_path asset)) opts])"

definition handle_http_message ::
  "'p mg_env \<Rightarrow> mg_connection \<Rightarrow> mg_http_message \<Rightarrow> 'p world \<Rightarrow> 'p world option" where
  "handle_http_message E conn msg w =
     (case find_listener E (hm_uri msg) (ep_listeners (w_ep w)) of
        Some (listener, groups) \<Rightarrow> invoke_listener E conn msg groups listener w
      | None \<Rightarrow>
          (case find_asset E (hm_uri msg) (ep_assets (w_ep w)) of
             Some (path, asset) \<Rightarrow> Some (emit (serve_asset conn path asset) w)
           | None \<Rightarrow>
               (case ep_fallback (w_ep w) of
                  Some fallback \<Rightarrow> invoke_listener E conn msg [] fallback w
                | None \<Rightarrow> Some (emit [not_found_reply conn] w))))"

subsection \<open>Wakeups\<close>

definition handle_stream :: "mg_connection \<Rightarrow> string \<Rightarrow> 'p world \<Rightarrow> (bool \<times> 'p world) option" where
  "handle_stream conn data w =
     (case um_find (=) (pending_streams w) (c_id conn) of
        None \<Rightarrow> Some (False, w)
      | Some streams \<Rightarrow>
          (case read_size_t data of
             None \<Rightarrow> None
           | Some rid \<Rightarrow>
               (case um_find (=) streams rid of
                  None \<Rightarrow> Some (False, w)
                | Some None \<Rightarrow> None
                | Some (Some ref) \<Rightarrow>
                    (case w_strm w ref of
                       None \<Rightarrow> None
                     | Some stream \<Rightarrow>
                         (case async_stream_get_state stream of
                            S_start \<Rightarrow>
                              let (preamble, stream') = async_stream_get_data stream
                              in Some (True, set_strm ref (async_stream_mark_flush stream')
                                   (emit [MgSend (c_id conn) preamble] w))
                          | S_has_data \<Rightarrow>
                              let (chunk, stream') = async_stream_get_data stream
                              in Some (True, set_strm ref (async_stream_mark_flush stream')
                                   (emit [MgHttpWriteChunk (c_id conn) chunk] w))
                          | S_close \<Rightarrow>
                              let streams' = um_erase (=) rid streams;
                                  pending = (if streams' = []
                                             then um_erase (=) (c_id conn) (pending_streams w)
                                             else um_put (=) (c_id conn) streams' (pending_streams w))
                              in Some (True, set_pending_streams pending
                                   (set_strm ref (async_stream_mark_completed stream)
                                     (emit [MgHttpWriteChunk (c_id conn) ''''] w)))
                          | _ \<Rightarrow> Some (True, w))))))"

definition handle_response :: "mg_connection \<Rightarrow> string \<Rightarrow> 'p world \<Rightarrow> (bool \<times> 'p world) option" where
  "handle_response conn data w =
     (case um_find (=) (pending_responses w) (c_id conn) of
        None \<Rightarrow> Some (False, emit [internal_server_error_reply conn] w)
      | Some responses \<Rightarrow>
          (case read_size_t data of
             None \<Rightarrow> None
           | Some rid \<Rightarrow>
               (case um_find (=) responses rid of
                  None \<Rightarrow> Some (False, emit [internal_server_error_reply conn] w)
                | Some ref \<Rightarrow>
                    (case w_resp w ref of
                       None \<Rightarrow> None
                     | Some response \<Rightarrow>
                         let erased = um_put (=) (c_id conn) (um_erase (=) rid responses) (pending_responses w)
                         in if async_response_get_state response = R_streaming then
                              let (stream, response') = async_response_get_stream response;
                                  w1 = set_pending_streams
                                         (pend_put (c_id conn) rid stream (pending_streams w))
                                         (set_resp ref response' w)
                              in handle_stream conn data (set_pending_responses erased w1)
                            else
                              let p = async_response_get_payload response
                              in Some (True, set_pending_responses erased
                                   (set_resp ref (async_response_mark_completed response)
                                     (emit [MgHttpReply (c_id conn) (pl_code p) (c_str (pl_headers p)) (pl_body p)] w)))))))"

definition handle_wakeup :: "mg_connection \<Rightarrow> string \<Rightarrow> 'p world \<Rightarrow> 'p world option" where
  "handle_wakeup conn data w =
     (case handle_stream conn data w of
        None \<Rightarrow> None
      | Some (done1, w1) \<Rightarrow>
          if done1 then Some w1
          else
            (case handle_response conn data w1 of
               None \<Rightarrow> None
             | Some (done2, w2) \<Rightarrow>
                 if done2 then Some w2
                 else Some (emit [internal_server_error_reply conn] w2)))"

subsection \<open>Writes\<close>

definition write_streams ::
  "'p mg_env \<Rightarrow> mg_connection \<Rightarrow> streams \<Rightarrow> (nat \<rightharpoonup> async_stream) \<Rightarrow> (nat \<rightharpoonup> async_stream) option" where
  "write_streams E conn streams heap = heap_foreach (pump_async_stream E conn) (map snd streams) heap"

fun write_conns ::
  "'p mg_env \<Rightarrow> mg_connection \<Rightarrow> (ulong, streams) umap \<Rightarrow> (nat \<rightharpoonup> async_stream) \<Rightarrow> (nat \<rightharpoonup> async_stream) option" where
  "write_conns E conn [] heap = Some heap"
| "write_conns E conn ((c, streams) # rest) heap =
     (case write_streams E conn streams heap of
        None \<Rightarrow> None
      | Some heap' \<Rightarrow> write_conns E conn rest heap')"

definition handle_write :: "'p mg_env \<Rightarrow> mg_connection \<Rightarrow> 'p world \<Rightarrow> 'p world option" where
  "handle_write E conn w =
     (case context_of conn w of
        None \<Rightarrow> None
      | Some (k, context) \<Rightarrow>
          let (context', calls) = pump_stream E conn context;
              w1 = emit calls (set_ctx k context' w)
          in (case write_conns E conn (pending_streams w1) (w_strm w1) of
                None \<Rightarrow> None
              | Some heap \<Rightarrow> Some (w1\<lparr>w_strm := heap\<rparr>)))"

subsection \<open>Connections that come and go\<close>

definition fail_responses :: "responses \<Rightarrow> (nat \<rightharpoonup> async_response) \<Rightarrow> (nat \<rightharpoonup> async_response) option" where
  "fail_responses responses heap =
     heap_foreach async_response_mark_failed (map (Some \<circ> snd) responses) heap"

definition fail_streams :: "streams \<Rightarrow> (nat \<rightharpoonup> async_stream) \<Rightarrow> (nat \<rightharpoonup> async_stream) option" where
  "fail_streams streams heap = heap_foreach async_stream_mark_failed (map snd streams) heap"

definition close_responses :: "mg_connection \<Rightarrow> 'p world \<Rightarrow> 'p world option" where
  "close_responses conn w =
     (case um_find (=) (pending_responses w) (c_id conn) of
        None \<Rightarrow> Some w
      | Some responses \<Rightarrow>
          (case fail_responses responses (w_resp w) of
             None \<Rightarrow> None
           | Some heap \<Rightarrow>
               Some (set_pending_responses (um_erase (=) (c_id conn) (pending_responses w))
                 (w\<lparr>w_resp := heap\<rparr>))))"

definition close_streams :: "mg_connection \<Rightarrow> 'p world \<Rightarrow> 'p world option" where
  "close_streams conn w =
     (case um_find (=) (pending_streams w) (c_id conn) of
        None \<Rightarrow> Some w
      | Some streams \<Rightarrow>
          (case fail_streams streams (w_strm w) of
             None \<Rightarrow> None
           | Some heap \<Rightarrow>
               Some (set_pending_streams (um_erase (=) (c_id conn) (pending_streams w))
                 (w\<lparr>w_strm := heap\<rparr>))))"

text \<open>Dropping the context's share of a certificate expires the weak pointers to it.\<close>

definition drop_cert :: "nat option \<Rightarrow> 'p world \<Rightarrow> 'p world" where
  "drop_cert p w = (case p of None \<Rightarrow> w | Some c \<Rightarrow> w\<lparr>w_cert := (w_cert w)(c := None)\<rparr>)"

text \<open>\<open>delete context\<close>: nothing for null, an error unless it is a context that exists.\<close>

definition delete_context :: "mg_connection \<Rightarrow> 'p world \<Rightarrow> 'p world option" where
  "delete_context conn w =
     (case c_fn_data conn of
        FnNull \<Rightarrow> Some w
      | FnEndpoint _ \<Rightarrow> None
      | FnContext k \<Rightarrow>
          (case w_ctx w k of
             None \<Rightarrow> None
           | Some ctx \<Rightarrow> Some (drop_cert (rc_tls_cert ctx) (w\<lparr>w_ctx := (w_ctx w)(k := None)\<rparr>))))"

definition handle_close :: "mg_connection \<Rightarrow> 'p world \<Rightarrow> (mg_connection \<times> 'p world) option" where
  "handle_close conn w =
     (case close_responses conn w of
        None \<Rightarrow> None
      | Some w1 \<Rightarrow>
          (case close_streams conn w1 of
             None \<Rightarrow> None
           | Some w2 \<Rightarrow>
               if c_data0 conn = CHR ''R'' then
                 (case delete_context conn w2 of
                    None \<Rightarrow> None
                  | Some w3 \<Rightarrow> Some (conn\<lparr>c_fn_data := FnNull, c_data0 := NUL\<rparr>, w3))
               else Some (conn, w2)))"

text \<open>The endpoint is number 0 of its world.\<close>

definition promote_context :: "'p mg_env \<Rightarrow> mg_connection \<Rightarrow> 'p world \<Rightarrow> mg_connection \<times> 'p world" where
  "promote_context E conn w =
     (let k = w_next w;
          context = remote_context_new E 0 conn
      in (conn\<lparr>c_fn := EventManagerContextHandler, c_fn_data := FnContext k, c_data0 := CHR ''R''\<rparr>,
          set_ctx k context (w\<lparr>w_next := Suc k\<rparr>)))"

definition setup_context :: "'p mg_env \<Rightarrow> mg_connection \<Rightarrow> 'p world \<Rightarrow> 'p world option" where
  "setup_context E conn w =
     (case context_of conn w of
        None \<Rightarrow> None
      | Some (k, context) \<Rightarrow>
          (case tls_setup E (c_tls conn) of
             None \<Rightarrow> Some w
           | Some info \<Rightarrow>
               let c = w_next w;
                   w1 = drop_cert (rc_tls_cert context) (w\<lparr>w_next := Suc c\<rparr>)
               in Some (set_ctx k (context\<lparr>rc_tls_cert := Some c\<rparr>) (w1\<lparr>w_cert := (w_cert w1)(c \<mapsto> info)\<rparr>))))"

subsection \<open>Dispatch\<close>

definition with_conn :: "mg_connection \<Rightarrow> 'p world option \<Rightarrow> (mg_connection \<times> 'p world) option" where
  "with_conn conn w = map_option (\<lambda>w'. (conn, w')) w"

fun endpoint_handle ::
  "'p mg_env \<Rightarrow> mg_connection \<Rightarrow> mg_event \<Rightarrow> 'p world \<Rightarrow> (mg_connection \<times> 'p world) option" where
  "endpoint_handle E conn MG_EV_ACCEPT w =
     Some (promote_context E conn (emit (handle_secure (ep_tls (w_ep w)) conn) w))"
| "endpoint_handle E conn MG_EV_POLL w = with_conn conn (handle_poll conn w)"
| "endpoint_handle E conn MG_EV_TLS_HS w = with_conn conn (setup_context E conn w)"
| "endpoint_handle E conn (MG_EV_HTTP_MSG msg) w = with_conn conn (handle_http_message E conn msg w)"
| "endpoint_handle E conn (MG_EV_WAKEUP data) w = with_conn conn (handle_wakeup conn data w)"
| "endpoint_handle E conn MG_EV_WRITE w = with_conn conn (handle_write E conn w)"
| "endpoint_handle E conn MG_EV_CLOSE w = handle_close conn w"
| "endpoint_handle E conn (MG_EV_OTHER ev) w = Some (conn, w)"

text \<open>
  The two functions of \<open>server.cpp\<close> mongoose calls: before a connection is accepted with
  the endpoint as data, afterwards with the context, which passes the event on.
\<close>

definition event_manager_handler ::
  "'p mg_env \<Rightarrow> mg_connection \<Rightarrow> mg_event \<Rightarrow> 'p world \<Rightarrow> (mg_connection \<times> 'p world) option" where
  "event_manager_handler E conn ev w =
     (case c_fn_data conn of
        FnEndpoint e \<Rightarrow> (if e = 0 then endpoint_handle E conn ev w else None)
      | FnNull \<Rightarrow> None
      | FnContext _ \<Rightarrow> None)"

definition remote_context_handle ::
  "'p mg_env \<Rightarrow> 'p remote_context \<Rightarrow> mg_connection \<Rightarrow> mg_event \<Rightarrow> 'p world \<Rightarrow> (mg_connection \<times> 'p world) option" where
  "remote_context_handle E context conn ev w =
     (if rc_endpoint context = 0 then endpoint_handle E conn ev w else None)"

definition event_manager_context_handler ::
  "'p mg_env \<Rightarrow> mg_connection \<Rightarrow> mg_event \<Rightarrow> 'p world \<Rightarrow> (mg_connection \<times> 'p world) option" where
  "event_manager_context_handler E conn ev w =
     (case context_of conn w of
        None \<Rightarrow> None
      | Some (k, context) \<Rightarrow> remote_context_handle E context conn ev w)"

text \<open>What mongoose does with an event: it calls the connection's function.\<close>

definition mg_call_handler ::
  "'p mg_env \<Rightarrow> mg_connection \<Rightarrow> mg_event \<Rightarrow> 'p world \<Rightarrow> (mg_connection \<times> 'p world) option" where
  "mg_call_handler E conn ev w =
     (case c_fn conn of
        EventManagerHandler \<Rightarrow> event_manager_handler E conn ev w
      | EventManagerContextHandler \<Rightarrow> event_manager_context_handler E conn ev w)"

end
