(* ===== verification/Invariants.thy ===== *)
theory Invariants
  imports Handlers
begin

text \<open>
  The consistency of the tables of an endpoint with the objects they point to, and that every
  operation keeps it: each pending entry leads to a live object of that very connection and
  request, a response that streams has its stream, and references above the allocator's
  mark are free. Under this invariant no handler meets a bad pointer, so each of the lemmas
  also says that the handler returns.
\<close>

subsection \<open>The invariant\<close>

definition strm_ok :: "'p world \<Rightarrow> ulong \<Rightarrow> u64 \<Rightarrow> nat option \<Rightarrow> bool" where
  "strm_ok w c i p \<longleftrightarrow>
     (\<exists>ref s. p = Some ref \<and> w_strm w ref = Some s \<and> as_conn s = c \<and> as_id s = i)"

definition resp_ok :: "'p world \<Rightarrow> ulong \<Rightarrow> u64 \<Rightarrow> nat \<Rightarrow> bool" where
  "resp_ok w c i ref \<longleftrightarrow>
     (\<exists>r. w_resp w ref = Some r \<and> ar_conn r = c \<and> ar_id r = i \<and>
        (ar_state r = R_streaming \<longrightarrow> strm_ok w c i (ar_stream r)))"

definition fresh_ok :: "'p world \<Rightarrow> bool" where
  "fresh_ok w \<longleftrightarrow>
     (\<forall>ref \<ge> w_next w. w_resp w ref = None \<and> w_strm w ref = None \<and> w_ctx w ref = None \<and> w_cert w ref = None)"

definition world_inv :: "'p world \<Rightarrow> bool" where
  "world_inv w \<longleftrightarrow>
     pend_ok (pending_responses w) \<and> pend_ok (pending_streams w) \<and>
     (\<forall>c i ref. pend_find (pending_responses w) c i = Some ref \<longrightarrow> resp_ok w c i ref) \<and>
     (\<forall>c i p. pend_find (pending_streams w) c i = Some p \<longrightarrow> strm_ok w c i p) \<and>
     fresh_ok w \<and> list_all wakeup_ok (w_calls w)"

lemma world_invD:
  assumes "world_inv w"
  shows "pend_ok (pending_responses w)" and "pend_ok (pending_streams w)"
    and "pend_find (pending_responses w) c i = Some ref \<Longrightarrow> resp_ok w c i ref"
    and "pend_find (pending_streams w) c i = Some p \<Longrightarrow> strm_ok w c i p"
    and "fresh_ok w"
    and "list_all wakeup_ok (w_calls w)"
  using assms by (auto simp: world_inv_def)

lemma world_inv_new [simp]: "world_inv (world_new host)"
  by (simp add: world_inv_def world_new_def endpoint_new_def fresh_ok_def)

subsection \<open>What an operation may do to the rest of the world\<close>

text \<open>Objects keep their connection and request; contexts persist with their endpoint.\<close>

definition strm_kept :: "'p world \<Rightarrow> 'p world \<Rightarrow> bool" where
  "strm_kept w w' \<longleftrightarrow>
     (\<forall>ref s. w_strm w ref = Some s \<longrightarrow>
        (\<exists>s'. w_strm w' ref = Some s' \<and> as_conn s' = as_conn s \<and> as_id s' = as_id s))"

definition ctx_kept :: "'p world \<Rightarrow> 'p world \<Rightarrow> bool" where
  "ctx_kept w w' \<longleftrightarrow>
     (\<forall>k ctx. w_ctx w k = Some ctx \<longrightarrow> (\<exists>ctx'. w_ctx w' k = Some ctx' \<and> rc_endpoint ctx' = rc_endpoint ctx))"

text \<open>Entries appear only under connection \<open>c\<close>.\<close>

definition keys_kept :: "ulong \<Rightarrow> 'p world \<Rightarrow> 'p world \<Rightarrow> bool" where
  "keys_kept c w w' \<longleftrightarrow>
     (\<forall>c'. c' \<noteq> c \<longrightarrow>
        um_find (=) (pending_responses w') c' = um_find (=) (pending_responses w) c' \<and>
        um_find (=) (pending_streams w') c' = um_find (=) (pending_streams w) c')"

text \<open>A step of the event loop for connection \<open>c\<close>.\<close>

definition good_step :: "ulong \<Rightarrow> 'p world \<Rightarrow> 'p world \<Rightarrow> bool" where
  "good_step c w w' \<longleftrightarrow> world_inv w' \<and> ctx_kept w w' \<and> keys_kept c w w' \<and> w_next w \<le> w_next w'"

lemma strm_kept_refl [simp]: "strm_kept w w"
  by (simp add: strm_kept_def)

lemma ctx_kept_refl [simp]: "ctx_kept w w"
  by (simp add: ctx_kept_def)

lemma keys_kept_refl [simp]: "keys_kept c w w"
  by (simp add: keys_kept_def)

lemma ctx_kept_trans: "ctx_kept w w' \<Longrightarrow> ctx_kept w' w'' \<Longrightarrow> ctx_kept w w''"
  unfolding ctx_kept_def by metis

lemma keys_kept_trans: "keys_kept c w w' \<Longrightarrow> keys_kept c w' w'' \<Longrightarrow> keys_kept c w w''"
  by (simp add: keys_kept_def)

lemma good_step_refl: "world_inv w \<Longrightarrow> good_step c w w"
  by (simp add: good_step_def)

lemma good_step_trans: "good_step c w w' \<Longrightarrow> good_step c w' w'' \<Longrightarrow> good_step c w w''"
  by (auto simp: good_step_def intro: ctx_kept_trans keys_kept_trans)

lemma strm_ok_kept: "strm_ok w c i p \<Longrightarrow> strm_kept w w' \<Longrightarrow> strm_ok w' c i p"
  unfolding strm_ok_def strm_kept_def by metis

lemma resp_ok_kept:
  "resp_ok w c i ref \<Longrightarrow> w_resp w' ref = w_resp w ref \<Longrightarrow> strm_kept w w' \<Longrightarrow> resp_ok w' c i ref"
  unfolding resp_ok_def by (metis strm_ok_kept)

lemma world_inv_kept:
  assumes "world_inv w" "w_ep w' = w_ep w" "strm_kept w w'" "fresh_ok w'" "list_all wakeup_ok (w_calls w')"
    and "\<And>c i ref. resp_ok w c i ref \<Longrightarrow> resp_ok w' c i ref"
  shows "world_inv w'"
  using assms(1,2,4-6) strm_ok_kept [OF _ assms(3)] by (auto simp: world_inv_def)

lemma good_step_emit: "world_inv w \<Longrightarrow> list_all wakeup_ok calls \<Longrightarrow> good_step c w (emit calls w)"
  by (simp add: good_step_def world_inv_def emit_def ctx_kept_def keys_kept_def fresh_ok_def
      resp_ok_def strm_ok_def)

lemma world_inv_emit [simp]: "world_inv w \<Longrightarrow> list_all wakeup_ok calls \<Longrightarrow> world_inv (emit calls w)"
  using good_step_emit by (auto simp: good_step_def)

lemma good_step_then_emit: "good_step c w w' \<Longrightarrow> list_all wakeup_ok calls \<Longrightarrow> good_step c w (emit calls w')"
  by (meson good_step_def good_step_emit good_step_trans)

text \<open>Two pending entries never share an object.\<close>

lemma resp_ok_inject: "resp_ok w c i ref \<Longrightarrow> resp_ok w c' i' ref \<Longrightarrow> c = c' \<and> i = i'"
  by (auto simp: resp_ok_def)

text \<open>The members of an inner map, as entries of the table.\<close>

lemma pend_member:
  assumes "pend_ok m" "um_find (=) m c = Some inner" "(i, x) \<in> set inner"
  shows "pend_find m c i = Some x"
proof -
  have "um_ok (=) inner" using assms(1,2) by (simp add: pend_ok_def)
  from um_find_in_set [OF identity_equivp this assms(3)] assms(2) show ?thesis
    by (simp add: pend_find_def)
qed

subsection \<open>Changing one object\<close>

lemma world_inv_set_strm:
  assumes inv: "world_inv w" and old: "w_strm w ref = Some s"
    and same: "as_conn s' = as_conn s" "as_id s' = as_id s"
  shows "world_inv (set_strm ref s' w)" and "strm_kept w (set_strm ref s' w)"
proof -
  show kept: "strm_kept w (set_strm ref s' w)"
    using old same by (auto simp: strm_kept_def set_strm_def)
  have "fresh_ok (set_strm ref s' w)"
    using world_invD(5) [OF inv] old by (auto simp: fresh_ok_def set_strm_def)
  then show "world_inv (set_strm ref s' w)"
    using world_invD(6) [OF inv]
    by (intro world_inv_kept [OF inv _ kept] resp_ok_kept [OF _ _ kept]) (simp_all add: set_strm_def)
qed

lemma good_step_set_strm:
  assumes "world_inv w" "w_strm w ref = Some s" "as_conn s' = as_conn s" "as_id s' = as_id s"
  shows "good_step c w (set_strm ref s' w)"
  using world_inv_set_strm(1) [OF assms]
  by (simp add: good_step_def ctx_kept_def keys_kept_def set_strm_def)

lemma world_inv_set_ctx:
  assumes "world_inv w" "w_ctx w k = Some ctx" "rc_endpoint ctx' = rc_endpoint ctx"
  shows "good_step c w (set_ctx k ctx' w)"
proof -
  have "k < w_next w"
    using world_invD(5) [OF assms(1)] assms(2) by (metis fresh_ok_def not_le option.distinct(1))
  with assms show ?thesis
    by (auto simp: good_step_def world_inv_def set_ctx_def ctx_kept_def keys_kept_def fresh_ok_def
        resp_ok_def strm_ok_def)
qed

subsection \<open>Operations of a worker\<close>

lemma async_response_do_streaming:
  assumes "async_response_do E ref op r = (r', created, res, calls)"
    and "ar_state r' = R_streaming"
  shows "ar_state r = R_streaming \<and> ar_stream r' = ar_stream r \<and> created = None \<or>
    (\<exists>s. created = Some s \<and> as_conn s = ar_conn r \<and> as_id s = ar_id r \<and> ar_stream r' = Some ref)"
  using assms
  by (cases op) (auto simp: async_response_update_headers_def async_response_send_def
      async_response_stream_def async_stream_new_def Let_def split_def split: if_splits)

text \<open>Worker operations leave tables, contexts and certificates alone.\<close>

lemma response_op_frame:
  assumes "response_op E ref op w = Some (w', res)"
  shows "w_ep w' = w_ep w" "w_ctx w' = w_ctx w" "w_cert w' = w_cert w" "w_next w \<le> w_next w'"
  using assms by (auto simp: response_op_def world_defs Let_def split_def split: option.splits)

lemma response_op_total: "w_resp w ref = Some r \<Longrightarrow> \<exists>w' res. response_op E ref op w = Some (w', res)"
  by (simp add: response_op_def Let_def split_def)

lemma response_op_inv:
  assumes inv: "world_inv w" and op: "response_op E ref op w = Some (w', res)"
  shows "world_inv w'" and "strm_kept w w'" and "dom (w_resp w') = dom (w_resp w)"
proof -
  from op obtain r where r: "w_resp w ref = Some r" by (auto simp: response_op_def split: option.splits)
  obtain r' created res' calls where D: "async_response_do E (w_next w) op r = (r', created, res', calls)"
    by (metis prod_cases4)
  note w' = op [unfolded response_op_def r option.case D Let_def case_prod_conv]
  have same: "ar_conn r' = ar_conn r" "ar_id r' = ar_id r"
    using async_response_do_frame [of E "w_next w" op r] D by simp_all
  have fresh: "w_strm w (w_next w) = None" "ref < w_next w"
    using world_invD(5) [OF inv] r by (auto simp: fresh_ok_def not_le [symmetric])
  have resp': "w_resp w' = (w_resp w)(ref \<mapsto> r')" and ep': "w_ep w' = w_ep w"
    using w' by (auto simp: world_defs split: option.splits)
  show kept: "strm_kept w w'"
    using w' fresh by (auto simp: strm_kept_def world_defs split: option.splits)
  show "dom (w_resp w') = dom (w_resp w)" using r resp' by auto
  have "fresh_ok w'"
    using world_invD(5) [OF inv] w' fresh by (auto simp: fresh_ok_def world_defs split: option.splits)
  moreover have "resp_ok w' c i x" if "resp_ok w c i x" for c i x
  proof (cases "x = ref")
    case False
    with that kept resp' show ?thesis by (auto intro: resp_ok_kept)
  next
    case True
    with that r have ci: "ar_conn r = c" "ar_id r = i" by (auto simp: resp_ok_def)
    have "strm_ok w' c i (ar_stream r')" if st: "ar_state r' = R_streaming"
      using async_response_do_streaming [OF D st]
    proof
      assume "ar_state r = R_streaming \<and> ar_stream r' = ar_stream r \<and> created = None"
      moreover with \<open>resp_ok w c i x\<close> True r have "strm_ok w c i (ar_stream r)" by (auto simp: resp_ok_def)
      ultimately show ?thesis using kept by (auto intro: strm_ok_kept)
    next
      assume "\<exists>s. created = Some s \<and> as_conn s = ar_conn r \<and> as_id s = ar_id r \<and> ar_stream r' = Some (w_next w)"
      with w' ci show ?thesis by (auto simp: strm_ok_def world_defs)
    qed
    with True resp' same ci show ?thesis by (auto simp: resp_ok_def)
  qed
  moreover have "list_all wakeup_ok (w_calls w')"
    using w' world_invD(6) [OF inv] async_response_do_calls_ok [of E "w_next w" op r] D
    by (auto simp: world_defs split: option.splits)
  ultimately show "world_inv w'"
    by (intro world_inv_kept [OF inv ep' kept])
qed

lemma response_ops_inv:
  assumes "world_inv w" "w_resp w ref \<noteq> None"
  shows "\<exists>w'. response_ops E ref ops w = Some w' \<and> world_inv w' \<and>
    w_ep w' = w_ep w \<and> w_ctx w' = w_ctx w \<and> w_next w \<le> w_next w'"
  using assms
proof (induction ops arbitrary: w)
  case Nil
  then show ?case by simp
next
  case (Cons op ops)
  then obtain w1 res where op: "response_op E ref op w = Some (w1, res)"
    using response_op_total by fastforce
  note I = response_op_inv [OF Cons.prems(1) op] and F = response_op_frame [OF op]
  have "w_resp w1 ref \<noteq> None" using I(3) Cons.prems(2) by blast
  from Cons.IH [OF I(1) this] op F show ?case by auto
qed

lemma stream_send_op_inv:
  assumes "world_inv w" "stream_send_op E ref body w = Some w'"
  shows "world_inv w'" and "w_ep w' = w_ep w" and "w_ctx w' = w_ctx w"
proof -
  from assms(2) obtain s where s: "w_strm w ref = Some s" and
    w': "w' = emit (snd (async_stream_send E body s)) (set_strm ref (fst (async_stream_send E body s)) w)"
    by (auto simp: stream_send_op_def split_def Let_def split: option.splits)
  show "world_inv w'" unfolding w'
    by (intro world_inv_emit world_inv_set_strm(1) [OF assms(1) s]) simp_all
  show "w_ep w' = w_ep w" "w_ctx w' = w_ctx w" by (simp_all add: w' world_defs)
qed

lemma stream_close_op_inv:
  assumes "world_inv w" "stream_close_op E ref w = Some w'"
  shows "world_inv w'" and "w_ep w' = w_ep w" and "w_ctx w' = w_ctx w"
proof -
  from assms(2) obtain s where s: "w_strm w ref = Some s" and
    w': "w' = emit (snd (async_stream_close E s)) (set_strm ref (fst (async_stream_close E s)) w)"
    by (auto simp: stream_close_op_def split_def Let_def split: option.splits)
  show "world_inv w'" unfolding w'
    by (intro world_inv_emit world_inv_set_strm(1) [OF assms(1) s]) simp_all
  show "w_ep w' = w_ep w" "w_ctx w' = w_ctx w" by (simp_all add: w' world_defs)
qed

end
