(* ===== verification/Handler_Safety.thy ===== *)
theory Handler_Safety
  imports Invariants
begin

text \<open>
  Every event handler, started in a consistent world on a connection with its context,
  returns and leaves a consistent world, touching the tables of its own connection only.
\<close>

subsection \<open>Replacing a table\<close>

lemma good_step_pending_responses:
  assumes inv: "world_inv w" and ok: "pend_ok m"
    and sub: "\<And>c i ref. pend_find m c i = Some ref \<Longrightarrow> pend_find (pending_responses w) c i = Some ref"
    and keys: "\<And>c'. c' \<noteq> c \<Longrightarrow> um_find (=) m c' = um_find (=) (pending_responses w) c'"
  shows "good_step c w (set_pending_responses m w)"
proof -
  have "resp_ok (set_pending_responses m w) = resp_ok w" "strm_ok (set_pending_responses m w) = strm_ok w"
    by (simp_all add: resp_ok_def strm_ok_def set_pending_responses_def fun_eq_iff)
  with inv ok sub keys show ?thesis
    by (simp add: good_step_def world_inv_def set_pending_responses_def ctx_kept_def keys_kept_def
        fresh_ok_def)
qed

lemma good_step_pending_streams:
  assumes inv: "world_inv w" and ok: "pend_ok m"
    and sub: "\<And>c i p. pend_find m c i = Some p \<Longrightarrow> strm_ok w c i p"
    and keys: "\<And>c'. c' \<noteq> c \<Longrightarrow> um_find (=) m c' = um_find (=) (pending_streams w) c'"
  shows "good_step c w (set_pending_streams m w)"
proof -
  have "resp_ok (set_pending_streams m w) = resp_ok w" "strm_ok (set_pending_streams m w) = strm_ok w"
    by (simp_all add: resp_ok_def strm_ok_def set_pending_streams_def fun_eq_iff)
  with inv ok sub keys show ?thesis
    by (simp add: good_step_def world_inv_def set_pending_streams_def ctx_kept_def keys_kept_def
        fresh_ok_def)
qed

text \<open>Members of the table of one connection point to live objects.\<close>

lemma responses_live:
  assumes "world_inv w" "um_find (=) (pending_responses w) c = Some rs" "e \<in> set rs"
  shows "resp_ok w c (fst e) (snd e)" and "w_resp w (snd e) \<noteq> None"
proof -
  have "pend_find (pending_responses w) c (fst e) = Some (snd e)"
    using pend_member [OF world_invD(1) [OF assms(1)] assms(2), of "fst e" "snd e"] assms(3) by simp
  then show "resp_ok w c (fst e) (snd e)" by (rule world_invD(3) [OF assms(1)])
  then show "w_resp w (snd e) \<noteq> None" by (auto simp: resp_ok_def)
qed

lemma streams_live:
  assumes "world_inv w" "um_find (=) (pending_streams w) c = Some ss" "e \<in> set ss"
  shows "strm_ok w c (fst e) (snd e)"
proof -
  have "pend_find (pending_streams w) c (fst e) = Some (snd e)"
    using pend_member [OF world_invD(2) [OF assms(1)] assms(2), of "fst e" "snd e"] assms(3) by simp
  then show ?thesis by (rule world_invD(4) [OF assms(1)])
qed

subsection \<open>Poll\<close>

definition ref_failed :: "(nat \<rightharpoonup> async_response) \<Rightarrow> nat \<Rightarrow> bool" where
  "ref_failed heap ref \<longleftrightarrow> (case heap ref of None \<Rightarrow> False | Some r \<Rightarrow> ar_state r = R_failed)"

lemma poll_loop_eq:
  assumes "\<forall>e \<in> set rs. heap (snd e) \<noteq> None"
  shows "poll_loop conn heap rs =
    Some (filter (\<lambda>e. \<not> ref_failed heap (snd e)) rs,
          replicate (length (filter (\<lambda>e. ref_failed heap (snd e)) rs)) (internal_server_error_reply conn))"
  using assms
proof (induction rs)
  case Nil
  then show ?case by simp
next
  case (Cons e rs)
  then obtain r where "heap (snd e) = Some r" by auto
  with Cons show ?case
    by (cases e) (simp add: ref_failed_def async_response_get_state_def)
qed

lemma um_find_filter_sub:
  assumes "um_ok (=) m" "um_find (=) (filter P m) k = Some v"
  shows "um_find (=) m k = Some v"
proof -
  from um_find_Some_in [OF assms(2)] have "(k, v) \<in> set m" by auto
  with assms(1) show ?thesis by (simp add: um_find_in_set [OF identity_equivp])
qed

lemma handle_poll_safe:
  assumes inv: "world_inv w"
  shows "\<exists>w'. handle_poll conn w = Some w' \<and> good_step (c_id conn) w w'"
proof (cases "um_find (=) (pending_responses w) (c_id conn)")
  case None
  with inv show ?thesis by (simp add: handle_poll_def good_step_refl)
next
  case (Some rs)
  let ?rest = "filter (\<lambda>e. \<not> ref_failed (w_resp w) (snd e)) rs"
  let ?m = "um_put (=) (c_id conn) ?rest (pending_responses w)"
  note pok = world_invD(1) [OF inv]
  have rs: "um_ok (=) rs" using pok Some by (simp add: pend_ok_def)
  have "pend_find (pending_responses w) c i = Some ref" if "pend_find ?m c i = Some ref" for c i ref
  proof (cases "c = c_id conn")
    case True
    with that Some show ?thesis
      by (auto simp: pend_find_put_conn [OF pok] pend_find_def [of "pending_responses w"]
          intro: um_find_filter_sub [OF rs])
  next
    case False
    with that show ?thesis by (simp add: pend_find_put_conn [OF pok])
  qed
  moreover have "pend_ok ?m" using pok rs by (intro pend_ok_put_conn um_ok_filter)
  ultimately have G: "good_step (c_id conn) w (set_pending_responses ?m w)"
    using pok by (intro good_step_pending_responses [OF inv]) (auto simp: pend_ok_def um.lookup_put)
  have P: "poll_loop conn (w_resp w) rs = Some (?rest,
      replicate (length (filter (\<lambda>e. ref_failed (w_resp w) (snd e)) rs)) (internal_server_error_reply conn))"
    using responses_live(2) [OF inv Some] by (intro poll_loop_eq) blast
  show ?thesis
    using Some P good_step_then_emit [OF G]
    by (simp add: handle_poll_def list_all_iff internal_server_error_reply_def)
qed

subsection \<open>HTTP messages\<close>

lemma add_pending_safe:
  assumes inv: "world_inv w" and add: "add_pending conn w = (w', ref)"
  shows "good_step (c_id conn) w w'" and "w_resp w' ref \<noteq> None" and "w_ctx w' = w_ctx w"
proof -
  let ?rid = "ep_request_counter (w_ep w)" and ?c = "c_id conn"
  have ref: "ref = w_next w"
    and resp': "w_resp w' = (w_resp w)(ref \<mapsto> async_response_new ?c ?rid)"
    and pend': "pending_responses w' = pend_put ?c ?rid ref (pending_responses w)"
    and same: "pending_streams w' = pending_streams w" "w_strm w' = w_strm w" "w_ctx w' = w_ctx w"
      "w_cert w' = w_cert w" "w_next w' = Suc (w_next w)" "w_calls w' = w_calls w"
    using add by (auto simp: add_pending_def Let_def set_resp_def)
  have kept: "strm_kept w w'" by (simp add: strm_kept_def same)
  note pok = world_invD(1) [OF inv]
  have new: "resp_ok w' ?c ?rid ref"
    by (simp add: resp_ok_def resp' async_response_new_def)
  have old: "resp_ok w' c i x" if "resp_ok w c i x" for c i x
  proof -
    have "x \<noteq> ref" using that world_invD(5) [OF inv] ref by (auto simp: resp_ok_def fresh_ok_def)
    with that show ?thesis using kept resp' by (auto intro: resp_ok_kept)
  qed
  have "fresh_ok w'" using world_invD(5) [OF inv] same resp' ref by (auto simp: fresh_ok_def)
  moreover have "strm_ok w' = strm_ok w" by (simp add: strm_ok_def same fun_eq_iff)
  ultimately have "world_inv w'"
    using inv new old same pend' pok
    by (auto simp: world_inv_def pend_ok_put pend_find_put split: if_splits)
  moreover have "keys_kept ?c w w'"
    using pend' same pok by (auto simp: keys_kept_def pend_put_def pend_ok_def um.lookup_put)
  ultimately show "good_step ?c w w'" by (simp add: good_step_def ctx_kept_def same)
  show "w_resp w' ref \<noteq> None" "w_ctx w' = w_ctx w" by (simp_all add: resp' same)
qed

lemma response_ops_safe:
  assumes "world_inv w" "w_resp w ref \<noteq> None"
  shows "\<exists>w'. response_ops E ref ops w = Some w' \<and> good_step c w w'"
  using response_ops_inv [OF assms, of E ops] by (auto simp: good_step_def ctx_kept_def keys_kept_def)

lemma run_response_do_frame:
  "rc_endpoint (snd (fst (run_ops response_do ops rc))) = rc_endpoint (snd rc)"
  using run_ops_invariant [of "\<lambda>x. rc_endpoint (snd x) = rc_endpoint (snd rc)" response_do rc ops]
  by simp

lemma context_of_ctx: "context_of conn w = Some (k, ctx) \<Longrightarrow> w_ctx w k = Some ctx \<and> c_fn_data conn = FnContext k"
  by (auto simp: context_of_def split: conn_data.splits option.splits)

lemma invoke_listener_safe:
  assumes inv: "world_inv w" and ctx: "context_of conn w = Some (k, ctx)"
  shows "\<exists>w'. invoke_listener E conn msg groups l w = Some w' \<and> good_step (c_id conn) w w'"
proof (cases "listener_is_async l")
  case True
  obtain w1 ref where add: "add_pending conn w = (w1, ref)" by fastforce
  note A = add_pending_safe [OF inv add]
  let ?req = "request_new msg (remote_context_get_remote_ip ctx) (remote_context_get_tls_cert_info ctx) groups"
  from A(1) have "world_inv w1" by (simp add: good_step_def)
  from response_ops_safe [OF this A(2)] obtain w2
    where "response_ops E ref (listener_invoke_async l E ?req) w1 = Some w2" "good_step (c_id conn) w1 w2"
    by blast
  with True ctx add A(1) show ?thesis
    by (auto simp: invoke_listener_def intro: good_step_trans)
next
  case False
  let ?req = "request_new msg (remote_context_get_remote_ip ctx) (remote_context_get_tls_cert_info ctx) groups"
  let ?run = "run_ops response_do (listener_invoke_sync l E ?req) (response_new conn, ctx)"
  have "rc_endpoint (snd (fst ?run)) = rc_endpoint ctx" by (simp add: run_response_do_frame)
  then have "good_step (c_id conn) w (set_ctx k (snd (fst ?run)) w)"
    using context_of_ctx [OF ctx] by (intro world_inv_set_ctx [OF inv]) auto
  then have "good_step (c_id conn) w (emit (snd ?run) (set_ctx k (snd (fst ?run)) w))"
    by (rule good_step_then_emit) simp
  with False ctx show ?thesis by (simp add: invoke_listener_def split_def Let_def)
qed

lemma reply_calls_ok [simp]:
  "wakeup_ok (not_found_reply conn)" "wakeup_ok (internal_server_error_reply conn)"
  "list_all wakeup_ok (serve_asset conn path asset)"
  by (simp_all add: not_found_reply_def internal_server_error_reply_def serve_asset_def Let_def)

lemma handle_http_message_safe:
  assumes inv: "world_inv w" and ctx: "context_of conn w = Some (k, ctx)"
  shows "\<exists>w'. handle_http_message E conn msg w = Some w' \<and> good_step (c_id conn) w w'"
  using invoke_listener_safe [OF inv ctx, of E msg] good_step_emit [OF inv]
  by (auto simp: handle_http_message_def split: option.split)

subsection \<open>Wakeups\<close>

lemma handle_stream_safe:
  assumes inv: "world_inv w" and data: "read_size_t data = Some rid"
  shows "\<exists>b w'. handle_stream conn data w = Some (b, w') \<and> good_step (c_id conn) w w'"
proof (cases "um_find (=) (pending_streams w) (c_id conn)")
  case None
  with inv show ?thesis by (auto simp: handle_stream_def good_step_refl)
next
  case (Some ss)
  let ?c = "c_id conn"
  note pok = world_invD(2) [OF inv]
  show ?thesis
  proof (cases "um_find (=) ss rid")
    case None
    with Some inv data show ?thesis by (auto simp: handle_stream_def good_step_refl)
  next
    case found: (Some p)
    have "pend_find (pending_streams w) ?c rid = Some p" using Some found by (simp add: pend_find_def)
    from world_invD(4) [OF inv this] obtain ref s where p: "p = Some ref"
      and s: "w_strm w ref = Some s" and ids: "as_conn s = ?c" "as_id s = rid"
      by (auto simp: strm_ok_def)
    have step: "good_step ?c w (set_strm ref s' (emit calls w))"
      if "as_conn s' = as_conn s" "as_id s' = as_id s" "list_all wakeup_ok calls" for s' calls
    proof (rule good_step_trans [OF good_step_emit [OF inv that(3)]])
      show "good_step ?c (emit calls w) (set_strm ref s' (emit calls w))"
        using that s world_inv_emit [OF inv, of calls] by (intro good_step_set_strm) (auto simp: emit_def)
    qed
    have ssok: "um_ok (=) ss" using pok Some by (simp add: pend_ok_def)
    define m where "m = (if um_erase (=) rid ss = [] then um_erase (=) ?c (pending_streams w)
      else um_put (=) ?c (um_erase (=) rid ss) (pending_streams w))"
    let ?w1 = "set_strm ref (async_stream_mark_completed s) (emit [MgHttpWriteChunk ?c ''''] w)"
    have G1: "good_step ?c w ?w1" by (rule step) simp_all
    then have inv1: "world_inv ?w1" by (simp add: good_step_def)
    have ps1: "pending_streams ?w1 = pending_streams w" by (simp add: world_defs)
    have mok: "pend_ok m" using pok ssok by (simp add: m_def pend_ok_erase_conn pend_ok_put_conn um.ok_erase)
    have sub: "pend_find (pending_streams w) c i = Some q" if "pend_find m c i = Some q" for c i q
      using that um.lookup_erase [OF ssok] Some
      by (auto simp: m_def pend_find_erase_conn [OF pok] pend_find_put_conn [OF pok]
          pend_find_def [of "pending_streams w"] split: if_splits)
    have "good_step ?c ?w1 (set_pending_streams m ?w1)"
    proof (rule good_step_pending_streams [OF inv1 mok])
      fix c i q
      assume "pend_find m c i = Some q"
      then have "pend_find (pending_streams ?w1) c i = Some q" using sub ps1 by simp
      then show "strm_ok ?w1 c i q" by (rule world_invD(4) [OF inv1])
    next
      fix c' assume "c' \<noteq> ?c"
      then show "um_find (=) m c' = um_find (=) (pending_streams ?w1) c'"
        using pok by (auto simp: m_def ps1 pend_ok_def um.lookup_erase um.lookup_put)
    qed
    with G1 have close: "good_step ?c w (set_pending_streams m ?w1)" by (rule good_step_trans)
    have idle: "good_step ?c w w" using inv by (rule good_step_refl)
    show ?thesis
      using Some data found p s step close idle
      by (auto simp: handle_stream_def async_stream_get_state_def async_stream_get_data_def Let_def
          m_def split: stream_state.split)
  qed
qed

lemma handle_response_safe:
  assumes inv: "world_inv w" and data: "read_size_t data = Some rid"
  shows "\<exists>b w'. handle_response conn data w = Some (b, w') \<and> good_step (c_id conn) w w'"
proof (cases "um_find (=) (pending_responses w) (c_id conn)")
  case None
  with inv show ?thesis by (auto simp: handle_response_def good_step_emit)
next
  case (Some rs)
  let ?c = "c_id conn"
  note pok = world_invD(1) [OF inv]
  show ?thesis
  proof (cases "um_find (=) rs rid")
    case None
    with Some inv data show ?thesis by (auto simp: handle_response_def good_step_emit)
  next
    case found: (Some ref)
    have pf: "pend_find (pending_responses w) ?c rid = Some ref" using Some found by (simp add: pend_find_def)
    from world_invD(3) [OF inv pf] obtain r where r: "w_resp w ref = Some r"
      and ids: "ar_conn r = ?c" "ar_id r = rid"
      and st: "ar_state r = R_streaming \<Longrightarrow> strm_ok w ?c rid (ar_stream r)"
      by (auto simp: resp_ok_def)
    have rsok: "um_ok (=) rs" using pok Some by (simp add: pend_ok_def)
    define m where "m = um_put (=) ?c (um_erase (=) rid rs) (pending_responses w)"
    have mok: "pend_ok m" using pok rsok by (simp add: m_def pend_ok_put_conn um.ok_erase)
    have mfind: "pend_find m c i = (if c = ?c \<and> i = rid then None else pend_find (pending_responses w) c i)" for c i
      using um.lookup_erase [OF rsok] Some
      by (auto simp: m_def pend_find_put_conn [OF pok] pend_find_def [of "pending_responses w"])
    \<comment> \<open>erasing the entry and rewriting its object at the same time\<close>
    have erase: "good_step ?c w (set_pending_responses m (set_resp ref r' w))" for r'
    proof -
      let ?w = "set_pending_responses m (set_resp ref r' w)"
      have strm: "strm_ok ?w = strm_ok w" by (simp add: strm_ok_def world_defs fun_eq_iff)
      have "resp_ok ?w c i x" if "pend_find m c i = Some x" for c i x
      proof -
        from that mfind have x: "pend_find (pending_responses w) c i = Some x" and "(c, i) \<noteq> (?c, rid)"
          by (auto split: if_splits)
        have "x \<noteq> ref"
          using resp_ok_inject world_invD(3) [OF inv x] world_invD(3) [OF inv pf] \<open>(c, i) \<noteq> (?c, rid)\<close>
          by blast
        with world_invD(3) [OF inv x] show ?thesis by (simp add: resp_ok_def strm) (simp add: world_defs)
      qed
      moreover have "fresh_ok ?w"
        using world_invD(5) [OF inv] r by (auto simp: fresh_ok_def world_defs)
      ultimately have "world_inv ?w"
        using inv mok strm by (simp add: world_inv_def) (simp add: world_defs)
      then show ?thesis
        using pok by (auto simp: good_step_def ctx_kept_def keys_kept_def world_defs m_def pend_ok_def um.lookup_put)
    qed
    show ?thesis
    proof (cases "ar_state r = R_streaming")
      case True
      let ?w1 = "set_pending_responses m (set_resp ref (r\<lparr>ar_stream := None\<rparr>) w)"
      let ?ps = "pend_put ?c rid (ar_stream r) (pending_streams w)"
      have G1: "good_step ?c w ?w1" by (rule erase)
      then have inv1: "world_inv ?w1" by (simp add: good_step_def)
      have ps1: "pending_streams ?w1 = pending_streams w" and strm1: "strm_ok ?w1 = strm_ok w"
        by (simp_all add: strm_ok_def world_defs fun_eq_iff)
      note psok = world_invD(2) [OF inv]
      have "good_step ?c ?w1 (set_pending_streams ?ps ?w1)"
      proof (rule good_step_pending_streams [OF inv1 pend_ok_put [OF psok]])
        fix c i q
        assume "pend_find ?ps c i = Some q"
        then show "strm_ok ?w1 c i q"
          using psok st [OF True] world_invD(4) [OF inv, of c i q]
          by (auto simp: strm1 pend_find_put split: if_splits)
      next
        fix c' assume "c' \<noteq> ?c"
        then show "um_find (=) ?ps c' = um_find (=) (pending_streams ?w1) c'"
          using psok by (auto simp: ps1 pend_put_def pend_ok_def um.lookup_put)
      qed
      with G1 have G2: "good_step ?c w (set_pending_streams ?ps ?w1)" by (rule good_step_trans)
      then have "world_inv (set_pending_streams ?ps ?w1)" by (simp add: good_step_def)
      from handle_stream_safe [OF this data] obtain b w' where
        "handle_stream conn data (set_pending_streams ?ps ?w1) = Some (b, w')" "good_step ?c w w'"
        using good_step_trans [OF G2] by blast
      moreover have "set_pending_responses m (set_pending_streams ?ps (set_resp ref (r\<lparr>ar_stream := None\<rparr>) w))
          = set_pending_streams ?ps ?w1"
        by (simp add: world_defs)
      ultimately show ?thesis
        using Some found data r True
        by (simp add: handle_response_def async_response_get_state_def async_response_get_stream_def
            m_def Let_def)
    next
      case False
      let ?calls = "[MgHttpReply ?c (pl_code (ar_payload r)) (c_str (pl_headers (ar_payload r))) (pl_body (ar_payload r))]"
      let ?w1 = "set_pending_responses m (set_resp ref (async_response_mark_completed r) w)"
      have "good_step ?c w (emit ?calls ?w1)"
        by (rule good_step_then_emit [OF erase]) simp
      moreover have "emit ?calls ?w1 =
          set_pending_responses m (set_resp ref (async_response_mark_completed r) (emit ?calls w))"
        by (simp add: world_defs)
      ultimately show ?thesis
        using Some found data r False
        by (auto simp: handle_response_def async_response_get_state_def async_response_get_payload_def
            m_def Let_def)
    qed
  qed
qed

lemma handle_wakeup_safe:
  assumes inv: "world_inv w" and data: "read_size_t data = Some rid"
  shows "\<exists>w'. handle_wakeup conn data w = Some w' \<and> good_step (c_id conn) w w'"
proof -
  from handle_stream_safe [OF inv data] obtain b w1
    where 1: "handle_stream conn data w = Some (b, w1)" and g1: "good_step (c_id conn) w w1" by blast
  then have "world_inv w1" by (simp add: good_step_def)
  from handle_response_safe [OF this data] obtain b2 w2
    where 2: "handle_response conn data w1 = Some (b2, w2)" and g2: "good_step (c_id conn) w1 w2" by blast
  have "good_step (c_id conn) w w2" using g1 g2 by (rule good_step_trans)
  from this good_step_then_emit [OF this] 1 2 g1 show ?thesis
    by (auto simp: handle_wakeup_def)
qed

end
