(* ===== verification/Lifecycle_Safety.thy ===== *)
theory Lifecycle_Safety
  imports Handler_Safety
begin

text \<open>
  The handlers that touch many objects at once (writes, closes) and those that make or
  replace a connection's context, in a consistent world.
\<close>

subsection \<open>Rewriting the objects behind pointers\<close>

text \<open>Streams rewritten in place by a function that keeps their connection and request.\<close>

lemma world_inv_strm_heap:
  assumes inv: "world_inv w"
    and map: "\<And>ref. heap ref = w_strm w ref \<or> heap ref = map_option f (w_strm w ref)"
    and same: "\<And>s. as_conn (f s) = as_conn s \<and> as_id (f s) = as_id s"
  shows "good_step c w (w\<lparr>w_strm := heap\<rparr>)"
proof -
  let ?w = "w\<lparr>w_strm := heap\<rparr>"
  have kept: "strm_kept w ?w"
    unfolding strm_kept_def
  proof (intro allI impI)
    fix ref s
    assume "w_strm w ref = Some s"
    then show "\<exists>s'. w_strm ?w ref = Some s' \<and> as_conn s' = as_conn s \<and> as_id s' = as_id s"
      using map [of ref] same by auto
  qed
  have "fresh_ok ?w"
    unfolding fresh_ok_def
  proof (intro allI impI)
    fix ref
    assume "w_next ?w \<le> ref"
    then show "w_resp ?w ref = None \<and> w_strm ?w ref = None \<and> w_ctx ?w ref = None \<and> w_cert ?w ref = None"
      using world_invD(5) [OF inv] map [of ref] by (auto simp: fresh_ok_def)
  qed
  then have "world_inv ?w"
    using world_invD(6) [OF inv]
    by (intro world_inv_kept [OF inv _ kept] resp_ok_kept [OF _ _ kept]) simp_all
  then show ?thesis by (simp add: good_step_def ctx_kept_def keys_kept_def)
qed

lemma streams_pointers:
  assumes "world_inv w" "um_find (=) (pending_streams w) c = Some ss"
  shows "list_all (\<lambda>p. \<exists>ref x. p = Some ref \<and> w_strm w ref = Some x) (map snd ss)"
  using streams_live [OF assms] by (fastforce simp: list_all_iff strm_ok_def)

lemma responses_pointers:
  assumes "world_inv w" "um_find (=) (pending_responses w) c = Some rs"
  shows "list_all (\<lambda>p. \<exists>ref x. p = Some ref \<and> w_resp w ref = Some x) (map (Some \<circ> snd) rs)"
  using responses_live(2) [OF assms] by (fastforce simp: list_all_iff)

subsection \<open>Writes\<close>

lemma pump_async_stream_idem: "pump_async_stream E conn (pump_async_stream E conn s) = pump_async_stream E conn s"
  by (simp add: pump_async_stream_def async_stream_get_state_def async_stream_mark_empty_def)

text \<open>Every stream pending under any connection is pumped, the others are left alone.\<close>

lemma write_conns_eq:
  assumes "list_all (\<lambda>p. \<exists>ref x. p = Some ref \<and> heap ref = Some x) (concat (map (map snd \<circ> snd) ps))"
  shows "write_conns E conn ps heap =
    Some (\<lambda>ref. if Some ref \<in> set (concat (map (map snd \<circ> snd) ps))
                then map_option (pump_async_stream E conn) (heap ref) else heap ref)"
  using assms
proof (induction ps arbitrary: heap)
  case Nil
  then show ?case by simp
next
  case (Cons e ps)
  obtain c ss where e: "e = (c, ss)" by (cases e)
  let ?heap = "\<lambda>ref. if Some ref \<in> set (map snd ss)
    then map_option (pump_async_stream E conn) (heap ref) else heap ref"
  have one: "write_streams E conn ss heap = Some ?heap"
    unfolding write_streams_def
    using Cons.prems e by (intro heap_foreach_idem pump_async_stream_idem) simp
  have "list_all (\<lambda>p. \<exists>ref x. p = Some ref \<and> ?heap ref = Some x) (concat (map (map snd \<circ> snd) ps))"
    unfolding list_all_iff
  proof
    fix p
    assume "p \<in> set (concat (map (map snd \<circ> snd) ps))"
    then have "p \<in> set (concat (map (map snd \<circ> snd) (e # ps)))" by simp
    with Cons.prems obtain ref x where "p = Some ref" "heap ref = Some x"
      unfolding list_all_iff by blast
    then show "\<exists>ref x. p = Some ref \<and> ?heap ref = Some x" by simp
  qed
  note IH = Cons.IH [OF this]
  have "write_conns E conn (e # ps) heap = write_conns E conn ps ?heap" by (simp add: e one)
  also have "\<dots> = Some (\<lambda>ref. if Some ref \<in> set (concat (map (map snd \<circ> snd) ps))
      then map_option (pump_async_stream E conn) (?heap ref) else ?heap ref)"
    by (rule IH)
  also have "\<dots> = Some (\<lambda>ref. if Some ref \<in> set (concat (map (map snd \<circ> snd) (e # ps)))
      then map_option (pump_async_stream E conn) (heap ref) else heap ref)"
    by (intro arg_cong [where f = Some] ext)
      (simp add: e option.map_comp comp_def pump_async_stream_idem)
  finally show ?case .
qed

lemma all_streams_pointers:
  assumes "world_inv w"
  shows "list_all (\<lambda>p. \<exists>ref x. p = Some ref \<and> w_strm w ref = Some x)
    (concat (map (map snd \<circ> snd) (pending_streams w)))"
proof -
  have "\<exists>ref x. p = Some ref \<and> w_strm w ref = Some x"
    if e: "(c, ss) \<in> set (pending_streams w)" and p: "p \<in> set (map snd ss)" for c ss p
  proof -
    have "um_ok (=) (pending_streams w)" using world_invD(2) [OF assms] by (simp add: pend_ok_def)
    from um_find_in_set [OF identity_equivp this e] have "um_find (=) (pending_streams w) c = Some ss" .
    from streams_pointers [OF assms this] p show ?thesis by (auto simp: list_all_iff)
  qed
  then show ?thesis by (fastforce simp: list_all_iff)
qed

lemma handle_write_eq:
  assumes inv: "world_inv w" and ctx: "context_of conn w = Some (k, ctx)"
  shows "handle_write E conn w =
    (let (ctx', calls) = pump_stream E conn ctx
     in Some ((emit calls (set_ctx k ctx' w))
          \<lparr>w_strm := \<lambda>ref. if Some ref \<in> set (concat (map (map snd \<circ> snd) (pending_streams w)))
                           then map_option (pump_async_stream E conn) (w_strm w ref) else w_strm w ref\<rparr>))"
proof -
  obtain ctx' calls where run: "pump_stream E conn ctx = (ctx', calls)" by fastforce
  have "write_conns E conn (pending_streams (emit calls (set_ctx k ctx' w))) (w_strm (emit calls (set_ctx k ctx' w)))
      = write_conns E conn (pending_streams w) (w_strm w)"
    by (simp add: world_defs)
  with run show ?thesis
    unfolding handle_write_def ctx by (simp add: write_conns_eq [OF all_streams_pointers [OF inv]])
qed

lemma handle_write_safe:
  assumes inv: "world_inv w" and ctx: "context_of conn w = Some (k, ctx)"
  shows "\<exists>w'. handle_write E conn w = Some w' \<and> good_step (c_id conn) w w'"
proof -
  let ?run = "pump_stream E conn ctx"
  let ?w1 = "emit (snd ?run) (set_ctx k (fst ?run) w)"
  have G: "good_step (c_id conn) w ?w1"
    using context_of_ctx [OF ctx] by (intro good_step_then_emit world_inv_set_ctx [OF inv]) auto
  then have "world_inv ?w1" by (simp add: good_step_def)
  moreover have "w_strm ?w1 = w_strm w" by (simp add: world_defs)
  ultimately have "good_step (c_id conn) ?w1 (?w1\<lparr>w_strm :=
      \<lambda>ref. if Some ref \<in> set (concat (map (map snd \<circ> snd) (pending_streams w)))
            then map_option (pump_async_stream E conn) (w_strm w ref) else w_strm w ref\<rparr>)"
    by (intro world_inv_strm_heap [where f = "pump_async_stream E conn"]) auto
  from good_step_trans [OF G this] show ?thesis
    by (simp add: handle_write_eq [OF inv ctx] split_def Let_def)
qed

subsection \<open>Closes\<close>

lemma async_stream_mark_failed_idem: "async_stream_mark_failed (async_stream_mark_failed s) = async_stream_mark_failed s"
  by (simp add: async_stream_mark_failed_def)

lemma async_response_mark_failed_idem:
  "async_response_mark_failed (async_response_mark_failed r) = async_response_mark_failed r"
  by (simp add: async_response_mark_failed_def)

text \<open>The objects of one connection, as failed.\<close>

definition fail_of :: "('o \<Rightarrow> 'o) \<Rightarrow> nat option list \<Rightarrow> (nat \<rightharpoonup> 'o) \<Rightarrow> nat \<rightharpoonup> 'o" where
  "fail_of f ps heap ref = (if Some ref \<in> set ps then map_option f (heap ref) else heap ref)"

definition conn_resp_refs :: "ulong \<Rightarrow> 'p world \<Rightarrow> nat option list" where
  "conn_resp_refs c w =
     (case um_find (=) (pending_responses w) c of None \<Rightarrow> [] | Some rs \<Rightarrow> map (Some \<circ> snd) rs)"

definition conn_strm_refs :: "ulong \<Rightarrow> 'p world \<Rightarrow> nat option list" where
  "conn_strm_refs c w =
     (case um_find (=) (pending_streams w) c of None \<Rightarrow> [] | Some ss \<Rightarrow> map snd ss)"

lemma close_responses_eq:
  assumes inv: "world_inv w"
  shows "close_responses conn w =
    Some (set_pending_responses (um_erase (=) (c_id conn) (pending_responses w))
      (w\<lparr>w_resp := fail_of async_response_mark_failed (conn_resp_refs (c_id conn) w) (w_resp w)\<rparr>))"
proof (cases "um_find (=) (pending_responses w) (c_id conn)")
  case None
  then show ?thesis
    by (simp add: close_responses_def conn_resp_refs_def fail_of_def fun_eq_iff um_erase_absent
        set_pending_responses_def)
next
  case (Some rs)
  have "fail_responses rs (w_resp w) = Some (fail_of async_response_mark_failed (conn_resp_refs (c_id conn) w) (w_resp w))"
    unfolding fail_responses_def
    using heap_foreach_idem [OF async_response_mark_failed_idem responses_pointers [OF inv Some]] Some
    by (simp add: fail_of_def conn_resp_refs_def fun_eq_iff)
  with Some show ?thesis by (simp add: close_responses_def)
qed

lemma close_streams_eq:
  assumes inv: "world_inv w"
  shows "close_streams conn w =
    Some (set_pending_streams (um_erase (=) (c_id conn) (pending_streams w))
      (w\<lparr>w_strm := fail_of async_stream_mark_failed (conn_strm_refs (c_id conn) w) (w_strm w)\<rparr>))"
proof (cases "um_find (=) (pending_streams w) (c_id conn)")
  case None
  then show ?thesis
    by (simp add: close_streams_def conn_strm_refs_def fail_of_def fun_eq_iff um_erase_absent
        set_pending_streams_def)
next
  case (Some ss)
  have "fail_streams ss (w_strm w) = Some (fail_of async_stream_mark_failed (conn_strm_refs (c_id conn) w) (w_strm w))"
    unfolding fail_streams_def
    using heap_foreach_idem [OF async_stream_mark_failed_idem streams_pointers [OF inv Some]] Some
    by (simp add: fail_of_def conn_strm_refs_def fun_eq_iff)
  with Some show ?thesis by (simp add: close_streams_def)
qed

text \<open>What is left of the tables once both have been cleared for a connection.\<close>

definition closed_tables :: "ulong \<Rightarrow> 'p world \<Rightarrow> 'p world" where
  "closed_tables c w =
     w\<lparr>w_ep := (w_ep w)\<lparr>ep_pending_responses := um_erase (=) c (pending_responses w),
                        ep_pending_streams := um_erase (=) c (pending_streams w)\<rparr>,
       w_resp := fail_of async_response_mark_failed (conn_resp_refs c w) (w_resp w),
       w_strm := fail_of async_stream_mark_failed (conn_strm_refs c w) (w_strm w)\<rparr>"

lemma conn_resp_refs_iff:
  assumes "world_inv w"
  shows "Some ref \<in> set (conn_resp_refs c w) \<longleftrightarrow> (\<exists>i. pend_find (pending_responses w) c i = Some ref)"
proof (cases "um_find (=) (pending_responses w) c")
  case None
  then show ?thesis by (simp add: conn_resp_refs_def pend_find_def)
next
  case (Some rs)
  have find: "pend_find (pending_responses w) c i = um_find (=) rs i" for i
    using Some by (simp add: pend_find_def)
  have "(\<exists>i. (i, ref) \<in> set rs) \<longleftrightarrow> (\<exists>i. um_find (=) rs i = Some ref)"
    using pend_member [OF world_invD(1) [OF assms] Some, of _ ref]
      um_find_Some_in [of "(=)" rs _ ref] unfolding find by metis
  moreover have "Some ref \<in> set (conn_resp_refs c w) \<longleftrightarrow> (\<exists>i. (i, ref) \<in> set rs)"
    using Some by (force simp: conn_resp_refs_def)
  ultimately show ?thesis by (simp add: find)
qed

lemma closed_responses_good:
  assumes inv: "world_inv w"
  shows "good_step c w (set_pending_responses (um_erase (=) c (pending_responses w))
      (w\<lparr>w_resp := fail_of async_response_mark_failed (conn_resp_refs c w) (w_resp w)\<rparr>))"
proof -
  let ?heap = "fail_of async_response_mark_failed (conn_resp_refs c w) (w_resp w)"
  let ?w = "set_pending_responses (um_erase (=) c (pending_responses w)) (w\<lparr>w_resp := ?heap\<rparr>)"
  note pok = world_invD(1) [OF inv]
  have strm: "strm_ok ?w = strm_ok w" by (simp add: strm_ok_def world_defs fun_eq_iff)
  have "resp_ok ?w c' i ref" if "pend_find (um_erase (=) c (pending_responses w)) c' i = Some ref" for c' i ref
  proof -
    from that have x: "pend_find (pending_responses w) c' i = Some ref" "c' \<noteq> c"
      by (auto simp: pend_find_erase_conn [OF pok] split: if_splits)
    have "Some ref \<notin> set (conn_resp_refs c w)"
      using x resp_ok_inject world_invD(3) [OF inv] by (auto simp: conn_resp_refs_iff [OF inv]) blast
    then have "?heap ref = w_resp w ref" by (simp add: fail_of_def)
    with world_invD(3) [OF inv x(1)] show ?thesis
      by (simp add: resp_ok_def strm) (simp add: world_defs)
  qed
  moreover have "fresh_ok ?w"
    using world_invD(5) [OF inv] by (auto simp: fresh_ok_def world_defs fail_of_def)
  ultimately have "world_inv ?w"
    using inv pend_ok_erase_conn [OF pok] strm by (simp add: world_inv_def) (simp add: world_defs)
  then show ?thesis
    using pok by (auto simp: good_step_def ctx_kept_def keys_kept_def world_defs pend_ok_def um.lookup_erase)
qed

lemma closed_streams_good:
  assumes inv: "world_inv w"
  shows "good_step c w (set_pending_streams (um_erase (=) c (pending_streams w))
      (w\<lparr>w_strm := fail_of async_stream_mark_failed (conn_strm_refs c w) (w_strm w)\<rparr>))"
proof -
  let ?w1 = "w\<lparr>w_strm := fail_of async_stream_mark_failed (conn_strm_refs c w) (w_strm w)\<rparr>"
  note pok = world_invD(2) [OF inv]
  have G: "good_step c w ?w1"
    by (rule world_inv_strm_heap [OF inv, where f = async_stream_mark_failed]) (simp_all add: fail_of_def)
  then have inv1: "world_inv ?w1" by (simp add: good_step_def)
  have "good_step c ?w1 (set_pending_streams (um_erase (=) c (pending_streams w)) ?w1)"
  proof (rule good_step_pending_streams [OF inv1 pend_ok_erase_conn [OF pok]])
    fix c' i p
    assume "pend_find (um_erase (=) c (pending_streams w)) c' i = Some p"
    then have "pend_find (pending_streams ?w1) c' i = Some p"
      by (auto simp: pend_find_erase_conn [OF pok] split: if_splits)
    then show "strm_ok ?w1 c' i p" by (rule world_invD(4) [OF inv1])
  next
    fix c'
    assume "c' \<noteq> c"
    then show "um_find (=) (um_erase (=) c (pending_streams w)) c' = um_find (=) (pending_streams ?w1) c'"
      using pok by (simp add: pend_ok_def um.lookup_erase)
  qed
  with G show ?thesis by (rule good_step_trans)
qed

lemma close_tables_eq:
  assumes inv: "world_inv w"
  shows "\<exists>w1. close_responses conn w = Some w1 \<and> close_streams conn w1 = Some (closed_tables (c_id conn) w)"
    and "good_step (c_id conn) w (closed_tables (c_id conn) w)"
proof -
  let ?c = "c_id conn"
  let ?w1 = "set_pending_responses (um_erase (=) ?c (pending_responses w))
      (w\<lparr>w_resp := fail_of async_response_mark_failed (conn_resp_refs ?c w) (w_resp w)\<rparr>)"
  have G1: "good_step ?c w ?w1" by (rule closed_responses_good [OF inv])
  then have inv1: "world_inv ?w1" by (simp add: good_step_def)
  have eq: "set_pending_streams (um_erase (=) ?c (pending_streams ?w1))
      (?w1\<lparr>w_strm := fail_of async_stream_mark_failed (conn_strm_refs ?c ?w1) (w_strm ?w1)\<rparr>)
      = closed_tables ?c w"
    by (simp add: closed_tables_def conn_strm_refs_def world_defs)
  show "\<exists>w1. close_responses conn w = Some w1 \<and> close_streams conn w1 = Some (closed_tables ?c w)"
    using close_responses_eq [OF inv] close_streams_eq [OF inv1] eq by auto
  show "good_step ?c w (closed_tables ?c w)"
    using good_step_trans [OF G1 closed_streams_good [OF inv1]] eq by simp
qed

lemma closed_tables_find [simp]:
  assumes "world_inv w"
  shows "um_find (=) (pending_responses (closed_tables c w)) c = None"
    and "um_find (=) (pending_streams (closed_tables c w)) c = None"
  using world_invD(1,2) [OF assms] by (simp_all add: closed_tables_def pend_ok_def um.lookup_erase)

lemma world_inv_drop:
  "world_inv w \<Longrightarrow> world_inv (drop_cert p (w\<lparr>w_ctx := (w_ctx w)(k := None)\<rparr>))"
  by (auto simp: world_inv_def drop_cert_def fresh_ok_def resp_ok_def strm_ok_def split: option.split)

lemma handle_close_context:
  assumes inv: "world_inv w" and ctx: "context_of conn w = Some (k, ctx)" and R: "c_data0 conn = CHR ''R''"
  shows "handle_close conn w =
      Some (conn\<lparr>c_fn_data := FnNull, c_data0 := NUL\<rparr>,
        drop_cert (rc_tls_cert ctx)
          ((closed_tables (c_id conn) w)\<lparr>w_ctx := (w_ctx w)(k := None)\<rparr>))"
proof -
  from close_tables_eq(1) [OF inv, of conn] obtain w1 where
    "close_responses conn w = Some w1" "close_streams conn w1 = Some (closed_tables (c_id conn) w)" by blast
  moreover have "w_ctx (closed_tables (c_id conn) w) = w_ctx w" by (simp add: closed_tables_def)
  ultimately show ?thesis
    using R context_of_ctx [OF ctx] by (simp add: handle_close_def delete_context_def)
qed

lemma handle_close_plain:
  assumes "world_inv w" "c_data0 conn \<noteq> CHR ''R''"
  shows "handle_close conn w = Some (conn, closed_tables (c_id conn) w)"
  using close_tables_eq(1) [OF assms(1), of conn] assms(2) by (auto simp: handle_close_def)

subsection \<open>Contexts\<close>

lemma setup_context_safe:
  assumes inv: "world_inv w" and ctx: "context_of conn w = Some (k, ctx)"
  shows "\<exists>w'. setup_context E conn w = Some w' \<and> good_step (c_id conn) w w'"
proof (cases "tls_setup E (c_tls conn)")
  case None
  with inv ctx show ?thesis by (simp add: setup_context_def good_step_refl)
next
  case (Some info)
  let ?c = "w_next w"
  let ?w1 = "drop_cert (rc_tls_cert ctx) (w\<lparr>w_next := Suc ?c\<rparr>)"
  let ?w2 = "set_ctx k (ctx\<lparr>rc_tls_cert := Some ?c\<rparr>) (?w1\<lparr>w_cert := (w_cert ?w1)(?c \<mapsto> info)\<rparr>)"
  have k: "w_ctx w k = Some ctx" using context_of_ctx [OF ctx] by simp
  then have "k < ?c" using world_invD(5) [OF inv] by (metis fresh_ok_def not_le option.distinct(1))
  then have "fresh_ok ?w2"
    using world_invD(5) [OF inv] by (auto simp: fresh_ok_def drop_cert_def set_ctx_def split: option.split)
  then have "world_inv ?w2"
    using world_invD(6) [OF inv]
    by (intro world_inv_kept [OF inv])
      (auto simp: drop_cert_def set_ctx_def strm_kept_def resp_ok_def strm_ok_def split: option.split)
  then have "good_step (c_id conn) w ?w2"
    using k by (auto simp: good_step_def ctx_kept_def keys_kept_def drop_cert_def set_ctx_def split: option.split)
  with ctx Some show ?thesis by (simp add: setup_context_def Let_def)
qed

lemma promote_context_eq:
  "promote_context E conn w =
     (conn\<lparr>c_fn := EventManagerContextHandler, c_fn_data := FnContext (w_next w), c_data0 := CHR ''R''\<rparr>,
      set_ctx (w_next w) (remote_context_new E 0 conn) (w\<lparr>w_next := Suc (w_next w)\<rparr>))"
  by (simp add: promote_context_def Let_def)

lemma promote_context_good:
  assumes inv: "world_inv w"
  shows "good_step c w (snd (promote_context E conn w))"
proof -
  let ?w = "set_ctx (w_next w) (remote_context_new E 0 conn) (w\<lparr>w_next := Suc (w_next w)\<rparr>)"
  have "fresh_ok ?w" using world_invD(5) [OF inv] by (auto simp: fresh_ok_def set_ctx_def)
  then have "world_inv ?w"
    using world_invD(6) [OF inv]
    by (intro world_inv_kept [OF inv]) (auto simp: set_ctx_def strm_kept_def resp_ok_def strm_ok_def)
  moreover have "ctx_kept w ?w"
    using world_invD(5) [OF inv] by (auto simp: ctx_kept_def set_ctx_def fresh_ok_def)
  ultimately show ?thesis by (simp add: promote_context_eq good_step_def keys_kept_def set_ctx_def)
qed

lemma handle_secure_calls_ok [simp]: "list_all wakeup_ok (handle_secure t conn)"
  by (simp add: handle_secure_def Let_def)

subsection \<open>Every event on a connection that has its context\<close>

text \<open>Except for closes; a wakeup carries the bytes of a \<open>size_t\<close>.\<close>

fun event_ok :: "mg_event \<Rightarrow> bool" where
  "event_ok MG_EV_ACCEPT \<longleftrightarrow> False"
| "event_ok (MG_EV_WAKEUP d) \<longleftrightarrow> (\<exists>rid. d = size_t_bytes rid)"
| "event_ok MG_EV_CLOSE \<longleftrightarrow> False"
| "event_ok _ \<longleftrightarrow> True"

lemma endpoint_handle_safe:
  assumes inv: "world_inv w" and ctx: "context_of conn w = Some (k, ctx)" and ev: "event_ok ev"
  shows "\<exists>w'. endpoint_handle E conn ev w = Some (conn, w') \<and> good_step (c_id conn) w w'"
  using ev handle_poll_safe [OF inv, of conn] setup_context_safe [OF inv ctx, of E]
    handle_http_message_safe [OF inv ctx, of E] handle_wakeup_safe [OF inv, of _ _ conn]
    handle_write_safe [OF inv ctx, of E] good_step_refl [OF inv]
  by (cases ev) (force simp: with_conn_def)+

lemma mg_call_handler_safe:
  assumes inv: "world_inv w" and ctx: "context_of conn w = Some (k, ctx)" and ep: "rc_endpoint ctx = 0"
    and fn: "c_fn conn = EventManagerContextHandler" and ev: "event_ok ev"
  shows "\<exists>w'. mg_call_handler E conn ev w = Some (conn, w') \<and> good_step (c_id conn) w w'"
  using endpoint_handle_safe [OF inv ctx ev, of E]
  by (simp add: mg_call_handler_def fn event_manager_context_handler_def ctx remote_context_handle_def ep)

subsection \<open>Objects a close reaches\<close>

lemma conn_strm_refs_failed:
  assumes "world_inv w" and p: "pend_find (pending_streams w) c i = Some (Some ref)"
  shows "\<exists>q. fail_of async_stream_mark_failed (conn_strm_refs c w) (w_strm w) ref = Some q \<and> as_state q = S_failed"
proof -
  from p obtain ss where ss: "um_find (=) (pending_streams w) c = Some ss" "um_find (=) ss i = Some (Some ref)"
    by (auto simp: pend_find_def split: option.splits)
  from um_find_Some_in [OF ss(2)] have "Some ref \<in> set (map snd ss)" by force
  with ss(1) have "Some ref \<in> set (conn_strm_refs c w)" by (simp add: conn_strm_refs_def)
  with world_invD(4) [OF assms] show ?thesis
    by (auto simp: strm_ok_def fail_of_def async_stream_mark_failed_def)
qed

lemma conn_resp_refs_failed:
  assumes "world_inv w" and p: "pend_find (pending_responses w) c i = Some ref"
  shows "\<exists>r. fail_of async_response_mark_failed (conn_resp_refs c w) (w_resp w) ref = Some r \<and> ar_state r = R_failed"
  using conn_resp_refs_iff [OF assms(1), of ref c] world_invD(3) [OF assms] p
  by (auto simp: resp_ok_def fail_of_def async_response_mark_failed_def)

lemma conn_resp_refs_other:
  assumes inv: "world_inv w" and p: "pend_find (pending_responses w) d i = Some ref" and "d \<noteq> c"
  shows "Some ref \<notin> set (conn_resp_refs c w)"
proof
  assume "Some ref \<in> set (conn_resp_refs c w)"
  then obtain j where "pend_find (pending_responses w) c j = Some ref"
    unfolding conn_resp_refs_iff [OF inv] by blast
  from resp_ok_inject [OF world_invD(3) [OF inv this] world_invD(3) [OF inv p]] assms(3) show False by simp
qed

end
