(* ===== verification/Server.thy ===== *)
theory Server
  imports Endpoint
begin

text \<open>
  \<open>server.hpp\<close> and \<open>server.cpp\<close>: starting and stopping the manager, listening, and the
  function mongoose calls for every character it logs. A call of the user's log listener is
  the string it is given.
\<close>

subsection \<open>The logger\<close>

text \<open>\<open>lg_listener\<close> says whether a listener is installed.\<close>

record logger =
  lg_buffer :: string
  lg_offset :: u64
  lg_listener :: bool

text \<open>\<open>None\<close> for a write past the end of the buffer and for a null listener.\<close>

definition event_manager_logger :: "char \<Rightarrow> logger \<Rightarrow> (logger \<times> string list) option" where
  "event_manager_logger ch l =
     (if unat (lg_offset l) \<ge> length (lg_buffer l) then None
      else
        let buffer = (lg_buffer l)[unat (lg_offset l) := ch];
            offset = lg_offset l + 1
        in if ch = LF \<or> offset \<ge> of_nat (length buffer) then
             if \<not> lg_listener l then None
             else Some (l\<lparr>lg_buffer := buffer, lg_offset := 0\<rparr>, [take (unat offset) buffer])
           else Some (l\<lparr>lg_buffer := buffer, lg_offset := offset\<rparr>, []))"

fun log_string :: "string \<Rightarrow> logger \<Rightarrow> (logger \<times> string list) option" where
  "log_string [] l = Some (l, [])"
| "log_string (ch # s) l =
     (case event_manager_logger ch l of
        None \<Rightarrow> None
      | Some (l', out) \<Rightarrow>
          (case log_string s l' of None \<Rightarrow> None | Some (l'', out') \<Rightarrow> Some (l'', out @ out')))"

subsection \<open>The server\<close>

datatype server_call =
    MgLogSet int
  | MgLogSetFn
  | MgMgrInit
  | MgWakeupInit
  | MgHttpListen string
  | MgMgrPoll int
  | MgMgrFree

record 'p server =
  sv_wakeup :: bool
  sv_logger :: logger
  sv_endpoints :: "'p endpoint list"

definition logger_new :: logger where
  "logger_new = \<lparr>lg_buffer = '''', lg_offset = 0, lg_listener = False\<rparr>"

definition server_blank :: "'p server" where
  "server_blank = \<lparr>sv_wakeup = False, sv_logger = logger_new, sv_endpoints = []\<rparr>"

text \<open>\<open>wakeup_init\<close> is the result of \<open>mg_wakeup_init\<close>.\<close>

definition server_start :: "bool \<Rightarrow> 'p server \<Rightarrow> 'p server \<times> server_call list" where
  "server_start wakeup_init s = (s\<lparr>sv_wakeup := wakeup_init\<rparr>, [MgMgrInit, MgWakeupInit])"

definition server_stop :: "'p server \<Rightarrow> server_call list" where
  "server_stop s = [MgMgrFree]"

definition register_logger :: "int \<Rightarrow> u64 \<Rightarrow> 'p server \<Rightarrow> 'p server \<times> server_call list" where
  "register_logger level n s =
     (if \<not> lg_listener (sv_logger s) then (s, [])
      else
        let old = lg_buffer (sv_logger s);
            buffer = take (unat n) old @ replicate (unat n - length old) NUL
        in (s\<lparr>sv_logger := (sv_logger s)\<lparr>lg_buffer := buffer\<rparr>\<rparr>, [MgLogSetFn, MgLogSet level]))"

text \<open>The three constructors.\<close>

definition server_new :: "bool \<Rightarrow> 'p server \<times> server_call list" where
  "server_new wakeup_init = server_start wakeup_init server_blank"

definition server_new_level :: "int \<Rightarrow> bool \<Rightarrow> 'p server \<times> server_call list" where
  "server_new_level level wakeup_init =
     (let (s, calls) = server_start wakeup_init server_blank in (s, MgLogSet level # calls))"

definition server_new_logger :: "int \<Rightarrow> u64 \<Rightarrow> bool \<Rightarrow> 'p server \<times> server_call list" where
  "server_new_logger level n wakeup_init =
     (let s0 = server_blank\<lparr>sv_logger := logger_new\<lparr>lg_listener := True\<rparr>\<rparr>;
          (s1, calls1) = register_logger level n s0;
          (s2, calls2) = server_start wakeup_init s1
      in (s2, calls1 @ calls2))"

definition server_is_async :: "'p server \<Rightarrow> bool" where
  "server_is_async s = sv_wakeup s"

text \<open>
  \<open>listen_http\<close>: \<open>listen\<close> is the connection \<open>mg_http_listen\<close> returned for the host, null when
  it failed; the result is the connection as set up and the endpoint.
\<close>

definition listen_http ::
  "mg_connection option \<Rightarrow> string \<Rightarrow> 'p server \<Rightarrow> 'p server \<times> (mg_connection \<times> 'p endpoint) option \<times> server_call list" where
  "listen_http listen host s =
     (let endpoint = endpoint_new host in
      case listen of
        None \<Rightarrow> (s, None, [MgHttpListen host])
      | Some conn \<Rightarrow>
          let (conn', endpoint') = endpoint_setup conn endpoint
          in (s\<lparr>sv_endpoints := sv_endpoints s @ [endpoint']\<rparr>, Some (conn', endpoint'), [MgHttpListen host]))"

definition server_poll :: "int \<Rightarrow> 'p server \<Rightarrow> server_call list" where
  "server_poll ms s = [MgMgrPoll ms]"

subsection \<open>What the logger delivers\<close>

text \<open>The text cut after every newline and after every \<open>n\<close> characters; \<open>acc\<close> has begun.\<close>

fun cut_log :: "nat \<Rightarrow> string \<Rightarrow> string \<Rightarrow> string list \<times> string" where
  "cut_log n acc [] = ([], acc)"
| "cut_log n acc (ch # s) =
     (if ch = LF \<or> Suc (length acc) \<ge> n then
        let (out, rest) = cut_log n [] s in ((acc @ [ch]) # out, rest)
      else cut_log n (acc @ [ch]) s)"

definition logger_ready :: "logger \<Rightarrow> bool" where
  "logger_ready l \<longleftrightarrow>
     lg_listener l \<and> unat (lg_offset l) < length (lg_buffer l) \<and> length (lg_buffer l) < 2 ^ 64"

definition logger_pending :: "logger \<Rightarrow> string" where
  "logger_pending l = take (unat (lg_offset l)) (lg_buffer l)"

lemma event_manager_logger_ready:
  assumes "logger_ready l"
  shows "\<exists>l' out. event_manager_logger ch l = Some (l', out) \<and> logger_ready l' \<and>
    length (lg_buffer l') = length (lg_buffer l) \<and>
    (if ch = LF \<or> Suc (length (logger_pending l)) \<ge> length (lg_buffer l)
     then out = [logger_pending l @ [ch]] \<and> logger_pending l' = []
     else out = [] \<and> logger_pending l' = logger_pending l @ [ch])"
proof -
  let ?o = "unat (lg_offset l)" and ?n = "length (lg_buffer l)"
  have o: "?o < ?n" "?n < 2 ^ 64" using assms by (simp_all add: logger_ready_def)
  have suc: "unat (lg_offset l + 1) = Suc ?o"
    using o by (simp add: unat_word_ariths)
  have ge: "lg_offset l + 1 \<ge> of_nat ?n \<longleftrightarrow> Suc ?o \<ge> ?n"
    using o suc by (simp add: word_le_nat_alt unat_of_nat)
  have take: "take (Suc ?o) ((lg_buffer l)[?o := ch]) = logger_pending l @ [ch]"
    using o by (simp add: logger_pending_def take_Suc_conv_app_nth)
  have len: "length (logger_pending l) = ?o" using o by (simp add: logger_pending_def)
  show ?thesis
  proof (cases "ch = LF \<or> Suc ?o \<ge> ?n")
    case True
    then have "event_manager_logger ch l =
        Some (l\<lparr>lg_buffer := (lg_buffer l)[?o := ch], lg_offset := 0\<rparr>, [logger_pending l @ [ch]])"
      using assms o ge suc take
      by (auto simp: event_manager_logger_def Let_def logger_ready_def)
    with True len assms show ?thesis
      by (auto simp: logger_ready_def logger_pending_def)
  next
    case False
    then have "event_manager_logger ch l =
        Some (l\<lparr>lg_buffer := (lg_buffer l)[?o := ch], lg_offset := lg_offset l + 1\<rparr>, [])"
      using o ge by (simp add: event_manager_logger_def Let_def)
    moreover have "logger_pending (l\<lparr>lg_buffer := (lg_buffer l)[?o := ch], lg_offset := lg_offset l + 1\<rparr>)
        = logger_pending l @ [ch]"
      using take suc by (simp add: logger_pending_def)
    moreover have "logger_ready (l\<lparr>lg_buffer := (lg_buffer l)[?o := ch], lg_offset := lg_offset l + 1\<rparr>)"
      using False assms suc by (simp add: logger_ready_def)
    ultimately show ?thesis using False len by simp
  qed
qed

lemma log_string_eq_cut:
  assumes "logger_ready l"
  shows "\<exists>l'. log_string s l = Some (l', fst (cut_log (length (lg_buffer l)) (logger_pending l) s)) \<and>
    logger_ready l' \<and> logger_pending l' = snd (cut_log (length (lg_buffer l)) (logger_pending l) s)"
  using assms
proof (induction s arbitrary: l)
  case Nil
  then show ?case by simp
next
  case (Cons ch s)
  obtain l' out where step: "event_manager_logger ch l = Some (l', out)" "logger_ready l'"
    "length (lg_buffer l') = length (lg_buffer l)" and
    out: "if ch = LF \<or> Suc (length (logger_pending l)) \<ge> length (lg_buffer l)
     then out = [logger_pending l @ [ch]] \<and> logger_pending l' = []
     else out = [] \<and> logger_pending l' = logger_pending l @ [ch]"
    using event_manager_logger_ready [OF Cons.prems, of ch] by blast
  from Cons.IH [OF step(2)] step out show ?case
    by (auto simp: split_def Let_def split: if_splits)
qed

lemma cut_log_concat: "concat (fst (cut_log n acc s)) @ snd (cut_log n acc s) = acc @ s"
  by (induction s arbitrary: acc) (simp_all add: split_def Let_def)

text \<open>One call of the listener: at most \<open>n\<close> characters, a newline only as the last one.\<close>

definition log_line_ok :: "nat \<Rightarrow> string \<Rightarrow> bool" where
  "log_line_ok n line \<longleftrightarrow> line \<noteq> [] \<and> length line \<le> n \<and> LF \<notin> set (butlast line) \<and>
     (last line = LF \<or> length line = n)"

lemma cut_log_lines:
  assumes "length acc < n" "LF \<notin> set acc"
  shows "list_all (log_line_ok n) (fst (cut_log n acc s)) \<and> length (snd (cut_log n acc s)) < n \<and>
    LF \<notin> set (snd (cut_log n acc s))"
  using assms
proof (induction s arbitrary: acc)
  case Nil
  then show ?case by simp
next
  case (Cons ch s)
  show ?case
  proof (cases "ch = LF \<or> Suc (length acc) \<ge> n")
    case True
    with Cons.prems have "log_line_ok n (acc @ [ch])" by (auto simp: log_line_ok_def)
    moreover have "length ([] :: string) < n" "LF \<notin> set ([] :: string)" using Cons.prems by auto
    ultimately show ?thesis using Cons.IH [of "[]"] True by (auto simp: split_def Let_def)
  next
    case False
    with Cons.IH [of "acc @ [ch]"] Cons.prems show ?thesis by (auto simp: not_le)
  qed
qed

end
