(* ===== verification/System.thy ===== *)
theory System
  imports Lifecycle_Safety Server
begin

text \<open>
  The program as a transition system: one server with one endpoint, the connections mongoose
  keeps for it, and workers that use the responses and streams they were given. The event
  loop runs one handler at a time, so a handler is one step; each operation of a worker is
  one step as well (\<open>Small_Steps\<close> takes them apart). The environment is free in every step: the
  results of external functions may change from one event to the next.
\<close>

record 'p sys =
  sy_world :: "'p world"
  sy_listener :: mg_connection
  sy_conns :: "ulong \<rightharpoonup> mg_connection"

subsection \<open>Steps\<close>

text \<open>Registrations of the user, at any time.\<close>

datatype 'p route_op =
    OnRequest string "'p mg_env \<Rightarrow> request \<Rightarrow> 'p Response.response_op list"
  | OnAsyncRequest string "'p mg_env \<Rightarrow> request \<Rightarrow> async_response_op list"
  | OnFallback "'p mg_env \<Rightarrow> request \<Rightarrow> 'p Response.response_op list"
  | OnAsyncFallback "'p mg_env \<Rightarrow> request \<Rightarrow> async_response_op list"
  | OnAsset string string string headers
  | OnAssets "(string \<times> string) list"

fun route_do :: "'p route_op \<Rightarrow> 'p endpoint \<Rightarrow> 'p endpoint" where
  "route_do (OnRequest path callback) ep = on_request path callback ep"
| "route_do (OnAsyncRequest path callback) ep = on_async_request path callback ep"
| "route_do (OnFallback callback) ep = on_fallback callback ep"
| "route_do (OnAsyncFallback callback) ep = on_async_fallback callback ep"
| "route_do (OnAsset path asset mime_type hs) ep = on_asset path asset mime_type hs ep"
| "route_do (OnAssets args) ep = on_assets args ep"

text \<open>A new iteration order of one of the hash maps, as a rehash may leave it.\<close>

inductive rehash :: "'p endpoint \<Rightarrow> 'p endpoint \<Rightarrow> bool" where
  rehash_listeners: "mset m = mset (ep_listeners ep) \<Longrightarrow> rehash ep (ep\<lparr>ep_listeners := m\<rparr>)"
| rehash_assets: "mset m = mset (ep_assets ep) \<Longrightarrow> rehash ep (ep\<lparr>ep_assets := m\<rparr>)"
| rehash_responses: "mset m = mset (ep_pending_responses ep) \<Longrightarrow> rehash ep (ep\<lparr>ep_pending_responses := m\<rparr>)"
| rehash_streams: "mset m = mset (ep_pending_streams ep) \<Longrightarrow> rehash ep (ep\<lparr>ep_pending_streams := m\<rparr>)"
| rehash_conn_responses:
    "um_find (=) (ep_pending_responses ep) c = Some rs \<Longrightarrow> mset rs' = mset rs \<Longrightarrow>
     rehash ep (ep\<lparr>ep_pending_responses := um_put (=) c rs' (ep_pending_responses ep)\<rparr>)"
| rehash_conn_streams:
    "um_find (=) (ep_pending_streams ep) c = Some ss \<Longrightarrow> mset ss' = mset ss \<Longrightarrow>
     rehash ep (ep\<lparr>ep_pending_streams := um_put (=) c ss' (ep_pending_streams ep)\<rparr>)"

text \<open>What mongoose may change on a connection between two events: the buffer and the TLS state.\<close>

definition touched :: "mg_connection \<Rightarrow> u64 \<Rightarrow> tls_peer \<Rightarrow> mg_connection" where
  "touched conn len tls = conn\<lparr>c_send_len := len, c_tls := tls\<rparr>"

text \<open>
  Events that reach a connection by themselves; a wakeup reaches it when a worker has asked
  for it on that connection.
\<close>

definition event_enabled :: "'p world \<Rightarrow> ulong \<Rightarrow> mg_event \<Rightarrow> bool" where
  "event_enabled w c ev =
     (case ev of
        MG_EV_ACCEPT \<Rightarrow> False
      | MG_EV_CLOSE \<Rightarrow> False
      | MG_EV_WAKEUP d \<Rightarrow> MgWakeup c d \<in> set (w_calls w)
      | _ \<Rightarrow> True)"

inductive sys_step :: "'p sys \<Rightarrow> 'p sys \<Rightarrow> bool" where
  sys_accept:
    "c_id conn \<noteq> c_id (sy_listener s) \<Longrightarrow> sy_conns s (c_id conn) = None \<Longrightarrow>
     c_fn conn = c_fn (sy_listener s) \<Longrightarrow> c_fn_data conn = c_fn_data (sy_listener s) \<Longrightarrow>
     mg_call_handler E conn MG_EV_ACCEPT (sy_world s) = Some (conn', w') \<Longrightarrow>
     sys_step s (s\<lparr>sy_world := w', sy_conns := (sy_conns s)(c_id conn \<mapsto> conn')\<rparr>)"
| sys_event:
    "sy_conns s c = Some conn \<Longrightarrow> event_enabled (sy_world s) c ev \<Longrightarrow>
     mg_call_handler E (touched conn len tls) ev (sy_world s) = Some (conn', w') \<Longrightarrow>
     sys_step s (s\<lparr>sy_world := w', sy_conns := (sy_conns s)(c \<mapsto> conn')\<rparr>)"
| sys_close:
    "sy_conns s c = Some conn \<Longrightarrow>
     mg_call_handler E (touched conn len tls) MG_EV_CLOSE (sy_world s) = Some (conn', w') \<Longrightarrow>
     sys_step s (s\<lparr>sy_world := w', sy_conns := (sy_conns s)(c := None)\<rparr>)"
| sys_listener:
    "ev \<in> {MG_EV_POLL, MG_EV_CLOSE} \<union> range MG_EV_OTHER \<Longrightarrow>
     mg_call_handler E (sy_listener s) ev (sy_world s) = Some (conn', w') \<Longrightarrow>
     sys_step s (s\<lparr>sy_world := w', sy_listener := conn'\<rparr>)"
| sys_respond:
    "response_op E ref op (sy_world s) = Some (w', res) \<Longrightarrow> sys_step s (s\<lparr>sy_world := w'\<rparr>)"
| sys_stream_send:
    "stream_send_op E ref body (sy_world s) = Some w' \<Longrightarrow> sys_step s (s\<lparr>sy_world := w'\<rparr>)"
| sys_stream_close:
    "stream_close_op E ref (sy_world s) = Some w' \<Longrightarrow> sys_step s (s\<lparr>sy_world := w'\<rparr>)"
| sys_route:
    "sys_step s (s\<lparr>sy_world := (sy_world s)\<lparr>w_ep := route_do op (w_ep (sy_world s))\<rparr>\<rparr>)"
| sys_tls:
    "sys_step s (s\<lparr>sy_world := (sy_world s)\<lparr>w_ep := (w_ep (sy_world s))\<lparr>ep_tls := t\<rparr>\<rparr>\<rparr>)"
| sys_rehash:
    "rehash (w_ep (sy_world s)) ep \<Longrightarrow> sys_step s (s\<lparr>sy_world := (sy_world s)\<lparr>w_ep := ep\<rparr>\<rparr>)"

text \<open>A server that has just started to listen on a host.\<close>

inductive sys_init :: "'p sys \<Rightarrow> bool" where
  "listen_http (Some conn) host server = (server', Some (lsn, ep), calls) \<Longrightarrow>
   c_fn conn = EventManagerHandler \<Longrightarrow> c_fn_data conn = FnEndpoint 0 \<Longrightarrow>
   sys_init \<lparr>sy_world = (world_new host)\<lparr>w_ep := ep\<rparr>, sy_listener = lsn, sy_conns = Map.empty\<rparr>"

inductive_cases sys_stepE: "sys_step s t"
inductive_simps sys_init_iff: "sys_init s"

subsection \<open>The invariant\<close>

text \<open>The data of a live connection leads to a context of the endpoint.\<close>

definition conn_ok :: "'p world \<Rightarrow> ulong \<Rightarrow> mg_connection \<Rightarrow> bool" where
  "conn_ok w c conn \<longleftrightarrow>
     c_id conn = c \<and> c_fn conn = EventManagerContextHandler \<and> c_data0 conn = CHR ''R'' \<and>
     (\<exists>k ctx. c_fn_data conn = FnContext k \<and> w_ctx w k = Some ctx \<and> rc_endpoint ctx = 0)"

definition listener_ok :: "'p sys \<Rightarrow> bool" where
  "listener_ok s \<longleftrightarrow>
     c_fn (sy_listener s) = EventManagerHandler \<and> c_fn_data (sy_listener s) = FnEndpoint 0 \<and>
     c_data0 (sy_listener s) = CHR ''E'' \<and> sy_conns s (c_id (sy_listener s)) = None"

text \<open>Requests are pending under live connections only.\<close>

definition keys_live :: "'p sys \<Rightarrow> bool" where
  "keys_live s \<longleftrightarrow>
     (\<forall>c. sy_conns s c = None \<longrightarrow>
        um_find (=) (pending_responses (sy_world s)) c = None \<and>
        um_find (=) (pending_streams (sy_world s)) c = None)"

definition sys_inv :: "'p sys \<Rightarrow> bool" where
  "sys_inv s \<longleftrightarrow>
     world_inv (sy_world s) \<and> listener_ok s \<and> keys_live s \<and>
     (\<forall>c conn. sy_conns s c = Some conn \<longrightarrow> conn_ok (sy_world s) c conn) \<and>
     (\<forall>c c' conn conn'. sy_conns s c = Some conn \<longrightarrow> sy_conns s c' = Some conn' \<longrightarrow>
        c_fn_data conn = c_fn_data conn' \<longrightarrow> c = c')"

lemma sys_invI:
  assumes "world_inv (sy_world s)" and "listener_ok s" and "keys_live s"
    and "\<And>c conn. sy_conns s c = Some conn \<Longrightarrow> conn_ok (sy_world s) c conn"
    and "\<And>c c' conn conn'. sy_conns s c = Some conn \<Longrightarrow> sy_conns s c' = Some conn' \<Longrightarrow>
      c_fn_data conn = c_fn_data conn' \<Longrightarrow> c = c'"
  shows "sys_inv s"
  unfolding sys_inv_def using assms by blast

lemma sys_invD:
  assumes "sys_inv s"
  shows "world_inv (sy_world s)" and "listener_ok s" and "keys_live s"
    and "sy_conns s c = Some conn \<Longrightarrow> conn_ok (sy_world s) c conn"
    and "sy_conns s c = Some conn \<Longrightarrow> sy_conns s c' = Some conn' \<Longrightarrow> c_fn_data conn = c_fn_data conn' \<Longrightarrow> c = c'"
  using assms unfolding sys_inv_def by blast+

lemma conn_ok_touched [simp]: "conn_ok w c (touched conn len tls) = conn_ok w c conn"
  by (simp add: conn_ok_def touched_def)

lemma touched_simps [simp]:
  "c_id (touched conn len tls) = c_id conn" "c_fn_data (touched conn len tls) = c_fn_data conn"
  "c_fn (touched conn len tls) = c_fn conn" "c_data0 (touched conn len tls) = c_data0 conn"
  by (simp_all add: touched_def)

lemma conn_okD:
  assumes "conn_ok w c conn"
  shows "\<exists>k ctx. context_of conn w = Some (k, ctx) \<and> rc_endpoint ctx = 0"
    and "c_fn conn = EventManagerContextHandler" and "c_id conn = c" and "c_data0 conn = CHR ''R''"
  using assms by (auto simp: conn_ok_def context_of_def)

lemma conn_ok_kept: "conn_ok w c conn \<Longrightarrow> ctx_kept w w' \<Longrightarrow> conn_ok w' c conn"
  unfolding conn_ok_def ctx_kept_def by metis

subsection \<open>Every step keeps it\<close>

lemma event_enabled_ok:
  assumes "world_inv w" "event_enabled w c ev"
  shows "event_ok ev"
  using assms(2) world_invD(6) [OF assms(1)]
  by (cases ev) (auto simp: event_enabled_def list_all_iff dest!: bspec)

text \<open>An event on a live connection returns; this is where memory safety comes from.\<close>

lemma live_event_safe:
  assumes inv: "sys_inv s" and c: "sy_conns s c = Some conn" and ev: "event_enabled (sy_world s) c ev"
  shows "\<exists>w'. mg_call_handler E (touched conn len tls) ev (sy_world s) = Some (touched conn len tls, w') \<and>
    good_step c (sy_world s) w'"
proof -
  let ?conn = "touched conn len tls"
  have ok: "conn_ok (sy_world s) c ?conn" using sys_invD(4) [OF inv c] by simp
  from conn_okD(1) [OF ok] obtain k ctx where
    ctx: "context_of ?conn (sy_world s) = Some (k, ctx)" "rc_endpoint ctx = 0" by blast
  have "c_id ?conn = c" by (rule conn_okD(3) [OF ok])
  then show ?thesis
    using mg_call_handler_safe [OF sys_invD(1) [OF inv] ctx conn_okD(2) [OF ok]
        event_enabled_ok [OF sys_invD(1) [OF inv] ev], of E] by simp
qed

lemma live_close_safe:
  assumes inv: "sys_inv s" and c: "sy_conns s c = Some conn"
  shows "\<exists>k ctx. c_fn_data conn = FnContext k \<and> w_ctx (sy_world s) k = Some ctx \<and>
    mg_call_handler E (touched conn len tls) MG_EV_CLOSE (sy_world s) =
      Some ((touched conn len tls)\<lparr>c_fn_data := FnNull, c_data0 := NUL\<rparr>,
        drop_cert (rc_tls_cert ctx)
          ((closed_tables c (sy_world s))\<lparr>w_ctx := (w_ctx (sy_world s))(k := None)\<rparr>))"
proof -
  let ?conn = "touched conn len tls"
  have ok: "conn_ok (sy_world s) c ?conn" using sys_invD(4) [OF inv c] by simp
  from conn_okD(1) [OF ok] obtain k ctx where
    ctx: "context_of ?conn (sy_world s) = Some (k, ctx)" and ep: "rc_endpoint ctx = 0" by blast
  from context_of_ctx [OF ctx] have k: "w_ctx (sy_world s) k = Some ctx" "c_fn_data conn = FnContext k"
    by simp_all
  have "mg_call_handler E ?conn MG_EV_CLOSE (sy_world s) = handle_close ?conn (sy_world s)"
    using conn_okD(2) [OF ok] ctx ep
    by (simp add: mg_call_handler_def event_manager_context_handler_def remote_context_handle_def)
  with k handle_close_context [OF sys_invD(1) [OF inv] ctx conn_okD(4) [OF ok]] conn_okD(3) [OF ok]
  show ?thesis by auto
qed

lemma sys_inv_good_step:
  assumes inv: "sys_inv s" and c: "sy_conns s c = Some conn" and good: "good_step c (sy_world s) w'"
    and conn': "conn_ok (sy_world s) c conn'" "c_fn_data conn' = c_fn_data conn"
  shows "sys_inv (s\<lparr>sy_world := w', sy_conns := (sy_conns s)(c \<mapsto> conn')\<rparr>)"
proof -
  let ?s = "s\<lparr>sy_world := w', sy_conns := (sy_conns s)(c \<mapsto> conn')\<rparr>"
  have kept: "ctx_kept (sy_world s) w'" and keys: "keys_kept c (sy_world s) w'" and w': "world_inv w'"
    using good by (simp_all add: good_step_def)
  show ?thesis
  proof (rule sys_invI)
    show "world_inv (sy_world ?s)" using w' by simp
    show "keys_live ?s"
      using sys_invD(3) [OF inv] keys by (auto simp: keys_live_def keys_kept_def)
    show "listener_ok ?s" using sys_invD(2) [OF inv] c by (auto simp: listener_ok_def)
  next
    fix d conn''
    assume "sy_conns ?s d = Some conn''"
    then show "conn_ok (sy_world ?s) d conn''"
      using conn'(1) sys_invD(4) [OF inv] by (auto intro: conn_ok_kept [OF _ kept] split: if_splits)
  next
    fix d d' a b
    assume that: "sy_conns ?s d = Some a" "sy_conns ?s d' = Some b" "c_fn_data a = c_fn_data b"
    have old: "\<exists>x0. sy_conns s e = Some x0 \<and> c_fn_data x0 = c_fn_data x" if "sy_conns ?s e = Some x" for e x
      using that conn'(2) c by (auto split: if_splits)
    from old [OF that(1)] old [OF that(2)] obtain a0 b0 where
      0: "sy_conns s d = Some a0" "sy_conns s d' = Some b0" "c_fn_data a0 = c_fn_data a" "c_fn_data b0 = c_fn_data b"
      by blast
    show "d = d'" by (rule sys_invD(5) [OF inv 0(1,2)]) (simp add: 0(3,4) that(3))
  qed
qed

text \<open>A change of the world that leaves the tables' keys and the contexts alone.\<close>

lemma sys_inv_world:
  assumes inv: "sys_inv s" and w': "world_inv w'" "w_ctx w' = w_ctx (sy_world s)"
    and keys: "\<And>c. um_find (=) (pending_responses (sy_world s)) c = None \<Longrightarrow> um_find (=) (pending_responses w') c = None"
      "\<And>c. um_find (=) (pending_streams (sy_world s)) c = None \<Longrightarrow> um_find (=) (pending_streams w') c = None"
  shows "sys_inv (s\<lparr>sy_world := w'\<rparr>)"
proof -
  have "conn_ok w' = conn_ok (sy_world s)" by (simp add: conn_ok_def w'(2) fun_eq_iff)
  moreover have "keys_live (s\<lparr>sy_world := w'\<rparr>)"
    using sys_invD(3) [OF inv] keys by (simp add: keys_live_def)
  moreover have "listener_ok (s\<lparr>sy_world := w'\<rparr>)" using sys_invD(2) [OF inv] by (simp add: listener_ok_def)
  ultimately show ?thesis using inv w' by (simp add: sys_inv_def)
qed

end
