(* ===== verification/System_Safety.thy ===== *)
theory System_Safety
  imports System
begin

text \<open>
  Every step of the system keeps its invariant, hence every reachable state has it.
\<close>

subsection \<open>Connections that come\<close>

lemma sys_inv_accept:
  assumes inv: "sys_inv s" and new: "c_id conn \<noteq> c_id (sy_listener s)" "sy_conns s (c_id conn) = None"
    and fn: "c_fn conn = c_fn (sy_listener s)" "c_fn_data conn = c_fn_data (sy_listener s)"
    and step: "mg_call_handler E conn MG_EV_ACCEPT (sy_world s) = Some (conn', w')"
  shows "sys_inv (s\<lparr>sy_world := w', sy_conns := (sy_conns s)(c_id conn \<mapsto> conn')\<rparr>)"
proof -
  let ?c = "c_id conn" and ?s = "s\<lparr>sy_world := w', sy_conns := (sy_conns s)(c_id conn \<mapsto> conn')\<rparr>"
  let ?w1 = "emit (handle_secure (ep_tls (w_ep (sy_world s))) conn) (sy_world s)"
  let ?k = "w_next (sy_world s)"
  have "mg_call_handler E conn MG_EV_ACCEPT (sy_world s) = Some (promote_context E conn ?w1)"
    using fn sys_invD(2) [OF inv]
    by (simp add: mg_call_handler_def event_manager_handler_def listener_ok_def)
  with step have P: "promote_context E conn ?w1 = (conn', w')" by simp
  have "good_step ?c (sy_world s) ?w1" by (rule good_step_emit [OF sys_invD(1) [OF inv]]) simp
  then have "good_step ?c (sy_world s) w'"
    using promote_context_good [of ?w1 ?c E conn] P by (auto simp: good_step_def intro: ctx_kept_trans keys_kept_trans)
  then have w': "world_inv w'" and kept: "ctx_kept (sy_world s) w'" and keys: "keys_kept ?c (sy_world s) w'"
    by (simp_all add: good_step_def)
  have conn': "conn' = conn\<lparr>c_fn := EventManagerContextHandler, c_fn_data := FnContext ?k, c_data0 := CHR ''R''\<rparr>"
    and ctx: "w_ctx w' ?k = Some (remote_context_new E 0 conn)"
    and tables: "pending_responses w' = pending_responses (sy_world s)" "pending_streams w' = pending_streams (sy_world s)"
    using P by (auto simp: promote_context_eq world_defs)
  have unused: "w_ctx (sy_world s) ?k = None"
    using world_invD(5) [OF sys_invD(1) [OF inv]] by (simp add: fresh_ok_def)
  have old: "c_fn_data a \<noteq> FnContext ?k" if "sy_conns s d = Some a" for d a
    using sys_invD(4) [OF inv that] unused by (auto simp: conn_ok_def)
  show ?thesis
  proof (rule sys_invI)
    show "world_inv (sy_world ?s)" using w' by simp
    show "listener_ok ?s" using sys_invD(2) [OF inv] new by (auto simp: listener_ok_def)
    show "keys_live ?s" using sys_invD(3) [OF inv] by (auto simp: keys_live_def tables)
  next
    fix d a
    assume "sy_conns ?s d = Some a"
    then show "conn_ok (sy_world ?s) d a"
      using sys_invD(4) [OF inv, of d a] ctx conn'
      by (cases "d = ?c") (auto simp: conn_ok_def [of w' ?c] remote_context_new_def intro: conn_ok_kept [OF _ kept])
  next
    fix d d' a b
    assume 0: "sy_conns ?s d = Some a" "sy_conns ?s d' = Some b" "c_fn_data a = c_fn_data b"
    have fnd: "c_fn_data x = FnContext ?k \<longleftrightarrow> e = ?c" if "sy_conns ?s e = Some x" for e x
      using that old [of e x] conn' by (auto split: if_splits)
    show "d = d'"
    proof (cases "d = ?c \<or> d' = ?c")
      case True
      then show ?thesis using fnd [OF 0(1)] fnd [OF 0(2)] 0(3) by auto
    next
      case False
      then have "sy_conns s d = Some a" "sy_conns s d' = Some b" using 0 by auto
      then show ?thesis using 0(3) by (rule sys_invD(5) [OF inv])
    qed
  qed
qed

subsection \<open>Connections that go\<close>

lemma sys_inv_close:
  assumes inv: "sys_inv s" and c: "sy_conns s c = Some conn"
    and step: "mg_call_handler E (touched conn len tls) MG_EV_CLOSE (sy_world s) = Some (conn', w')"
  shows "sys_inv (s\<lparr>sy_world := w', sy_conns := (sy_conns s)(c := None)\<rparr>)"
proof -
  let ?s = "s\<lparr>sy_world := w', sy_conns := (sy_conns s)(c := None)\<rparr>"
  note winv = sys_invD(1) [OF inv]
  from live_close_safe [OF inv c, of E len tls] obtain k ctx where
    k: "c_fn_data conn = FnContext k" and ctx: "w_ctx (sy_world s) k = Some ctx" and
    run: "mg_call_handler E (touched conn len tls) MG_EV_CLOSE (sy_world s) =
      Some ((touched conn len tls)\<lparr>c_fn_data := FnNull, c_data0 := NUL\<rparr>,
        drop_cert (rc_tls_cert ctx) ((closed_tables c (sy_world s))\<lparr>w_ctx := (w_ctx (sy_world s))(k := None)\<rparr>))"
    by blast
  from run step have
    w': "w' = drop_cert (rc_tls_cert ctx) ((closed_tables c (sy_world s))\<lparr>w_ctx := (w_ctx (sy_world s))(k := None)\<rparr>)"
    by simp
  have ok: "conn_ok (sy_world s) c (touched conn len tls)" using sys_invD(4) [OF inv c] by simp
  have "c_id (touched conn len tls) = c" by (rule conn_okD(3) [OF ok])
  with close_tables_eq(2) [OF winv, of "touched conn len tls"]
  have good: "good_step c (sy_world s) (closed_tables c (sy_world s))" by simp
  have ctx': "w_ctx (closed_tables c (sy_world s)) = w_ctx (sy_world s)" by (simp add: closed_tables_def)
  have "world_inv w'"
    unfolding w' using world_inv_drop [of "closed_tables c (sy_world s)" "rc_tls_cert ctx" k] good ctx'
    by (simp add: good_step_def)
  moreover have ctxs: "w_ctx w' = (w_ctx (sy_world s))(k := None)" and ep: "w_ep w' = w_ep (closed_tables c (sy_world s))"
    by (simp_all add: w' drop_cert_def split: option.split)
  ultimately show ?thesis
  proof (intro sys_invI)
    show "listener_ok ?s" using sys_invD(2) [OF inv] by (simp add: listener_ok_def)
    show "keys_live ?s"
      using sys_invD(3) [OF inv] good closed_tables_find [OF winv, of c] by (auto simp: keys_live_def ep good_step_def keys_kept_def)
  next
    fix d a
    assume "sy_conns ?s d = Some a"
    then have a: "sy_conns s d = Some a" "d \<noteq> c" by (auto split: if_splits)
    then have "c_fn_data a \<noteq> FnContext k" using sys_invD(5) [OF inv a(1) c] k by auto
    with sys_invD(4) [OF inv a(1)] show "conn_ok (sy_world ?s) d a" by (auto simp: conn_ok_def ctxs)
  next
    fix d d' a b
    assume "sy_conns ?s d = Some a" "sy_conns ?s d' = Some b" "c_fn_data a = c_fn_data b"
    then show "d = d'" using sys_invD(5) [OF inv, of d a d' b] by (auto split: if_splits)
  qed simp
qed

subsection \<open>The listening connection\<close>

lemma listener_event_safe:
  assumes inv: "sys_inv s" and ev: "ev \<in> {MG_EV_POLL, MG_EV_CLOSE} \<union> range MG_EV_OTHER"
  shows "mg_call_handler E (sy_listener s) ev (sy_world s) =
    Some (sy_listener s, if ev = MG_EV_CLOSE then closed_tables (c_id (sy_listener s)) (sy_world s) else sy_world s)"
proof -
  have l: "listener_ok s" by (rule sys_invD(2) [OF inv])
  then have "um_find (=) (pending_responses (sy_world s)) (c_id (sy_listener s)) = None"
    using sys_invD(3) [OF inv] by (simp add: listener_ok_def keys_live_def)
  then have "handle_poll (sy_listener s) (sy_world s) = Some (sy_world s)" by (simp add: handle_poll_def)
  moreover have "handle_close (sy_listener s) (sy_world s) =
      Some (sy_listener s, closed_tables (c_id (sy_listener s)) (sy_world s))"
    using l by (intro handle_close_plain [OF sys_invD(1) [OF inv]]) (simp add: listener_ok_def)
  ultimately show ?thesis
    using ev l by (auto simp: mg_call_handler_def event_manager_handler_def listener_ok_def with_conn_def)
qed

lemma sys_inv_listener:
  assumes inv: "sys_inv s" and ev: "ev \<in> {MG_EV_POLL, MG_EV_CLOSE} \<union> range MG_EV_OTHER"
    and step: "mg_call_handler E (sy_listener s) ev (sy_world s) = Some (conn', w')"
  shows "sys_inv (s\<lparr>sy_world := w', sy_listener := conn'\<rparr>)"
proof -
  let ?c = "c_id (sy_listener s)"
  have w': "w' = sy_world s \<or> w' = closed_tables ?c (sy_world s)" and conn': "conn' = sy_listener s"
    using step listener_event_safe [OF inv ev, of E] by (auto split: if_splits)
  have good: "good_step ?c (sy_world s) (closed_tables ?c (sy_world s))"
    by (rule close_tables_eq(2) [OF sys_invD(1) [OF inv]])
  have "um_find (=) (pending_responses (closed_tables ?c (sy_world s))) c = None"
    if "um_find (=) (pending_responses (sy_world s)) c = None" for c
    using that good closed_tables_find(1) [OF sys_invD(1) [OF inv], of ?c]
    by (cases "c = ?c") (auto simp: good_step_def keys_kept_def)
  moreover have "um_find (=) (pending_streams (closed_tables ?c (sy_world s))) c = None"
    if "um_find (=) (pending_streams (sy_world s)) c = None" for c
    using that good closed_tables_find(2) [OF sys_invD(1) [OF inv], of ?c]
    by (cases "c = ?c") (auto simp: good_step_def keys_kept_def)
  moreover have "w_ctx w' = w_ctx (sy_world s)" using w' by (auto simp: closed_tables_def)
  moreover have "world_inv w'" using w' good sys_invD(1) [OF inv] by (auto simp: good_step_def)
  ultimately have "sys_inv (s\<lparr>sy_world := w'\<rparr>)" using w' by (intro sys_inv_world [OF inv]) auto
  moreover have "s\<lparr>sy_world := w', sy_listener := conn'\<rparr> = s\<lparr>sy_world := w'\<rparr>" by (simp add: conn')
  ultimately show ?thesis by simp
qed

subsection \<open>Registrations and rehashing\<close>

text \<open>An endpoint with the same pending requests, up to the order of its maps.\<close>

lemma sys_inv_endpoint:
  assumes inv: "sys_inv s"
    and ok: "pend_ok (ep_pending_responses ep)" "pend_ok (ep_pending_streams ep)"
    and find: "\<And>c i. pend_find (ep_pending_responses ep) c i = pend_find (pending_responses (sy_world s)) c i"
      "\<And>c i. pend_find (ep_pending_streams ep) c i = pend_find (pending_streams (sy_world s)) c i"
    and keys: "\<And>c. um_find (=) (pending_responses (sy_world s)) c = None \<Longrightarrow> um_find (=) (ep_pending_responses ep) c = None"
      "\<And>c. um_find (=) (pending_streams (sy_world s)) c = None \<Longrightarrow> um_find (=) (ep_pending_streams ep) c = None"
  shows "sys_inv (s\<lparr>sy_world := (sy_world s)\<lparr>w_ep := ep\<rparr>\<rparr>)"
proof (rule sys_inv_world [OF inv])
  let ?w = "(sy_world s)\<lparr>w_ep := ep\<rparr>"
  have "strm_ok ?w = strm_ok (sy_world s)" by (simp add: strm_ok_def fun_eq_iff)
  moreover from this have "resp_ok ?w = resp_ok (sy_world s)" by (simp add: resp_ok_def fun_eq_iff)
  ultimately show "world_inv ?w"
    using sys_invD(1) [OF inv] ok by (simp add: world_inv_def find fresh_ok_def)
qed (use keys in simp_all)

lemma route_do_frame [simp]:
  "ep_pending_responses (route_do op ep) = ep_pending_responses ep"
  "ep_pending_streams (route_do op ep) = ep_pending_streams ep"
proof -
  have "ep_pending_responses (on_assets args ep) = ep_pending_responses ep \<and>
      ep_pending_streams (on_assets args ep) = ep_pending_streams ep" for args
    by (induction args ep rule: on_assets.induct) simp_all
  then show "ep_pending_responses (route_do op ep) = ep_pending_responses ep"
    "ep_pending_streams (route_do op ep) = ep_pending_streams ep"
    by (cases op; simp add: on_request_def on_async_request_def on_fallback_def on_async_fallback_def on_asset_def)+
qed

lemma pend_perm:
  assumes "pend_ok m" "mset m' = mset m"
  shows "pend_ok m'" and "um_find (=) m' c = um_find (=) m c" and "pend_find m' c i = pend_find m c i"
proof -
  have find: "um_find (=) m' c = um_find (=) m c" for c
    using um_find_perm [OF _ assms(2)] assms(1) by (simp add: pend_ok_def)
  then show "um_find (=) m' c = um_find (=) m c" "pend_find m' c i = pend_find m c i"
    by (simp_all add: pend_find_def)
  show "pend_ok m'" using assms um_ok_perm find by (auto simp: pend_ok_def)
qed

lemma pend_inner_perm:
  assumes m: "pend_ok m" and c: "um_find (=) m c = Some inner" and perm: "mset inner' = mset inner"
  shows "pend_ok (um_put (=) c inner' m)" and "pend_find (um_put (=) c inner' m) d i = pend_find m d i"
    and "um_find (=) m d = None \<Longrightarrow> um_find (=) (um_put (=) c inner' m) d = None"
proof -
  have ok: "um_ok (=) inner" using m c by (simp add: pend_ok_def)
  show "pend_ok (um_put (=) c inner' m)" by (rule pend_ok_put_conn [OF m um_ok_perm [OF ok perm]])
  show "pend_find (um_put (=) c inner' m) d i = pend_find m d i"
    using c um_find_perm [OF ok perm] by (auto simp: pend_find_put_conn [OF m] pend_find_def [of m])
  show "um_find (=) m d = None \<Longrightarrow> um_find (=) (um_put (=) c inner' m) d = None"
    using m c by (auto simp: pend_ok_def um.lookup_put)
qed

lemma sys_inv_rehash:
  assumes inv: "sys_inv s" and "rehash (w_ep (sy_world s)) ep"
  shows "sys_inv (s\<lparr>sy_world := (sy_world s)\<lparr>w_ep := ep\<rparr>\<rparr>)"
proof -
  note R = world_invD(1) [OF sys_invD(1) [OF inv]] and S = world_invD(2) [OF sys_invD(1) [OF inv]]
  show ?thesis
    using assms(2)
  proof (cases rule: rehash.cases)
    case (rehash_listeners m)
    show ?thesis unfolding rehash_listeners(1) using R S by (intro sys_inv_endpoint [OF inv]) simp_all
  next
    case (rehash_assets m)
    show ?thesis unfolding rehash_assets(1) using R S by (intro sys_inv_endpoint [OF inv]) simp_all
  next
    case (rehash_responses m)
    note P = pend_perm [OF R rehash_responses(2)]
    show ?thesis unfolding rehash_responses(1) using P S by (intro sys_inv_endpoint [OF inv]) simp_all
  next
    case (rehash_streams m)
    note P = pend_perm [OF S rehash_streams(2)]
    show ?thesis unfolding rehash_streams(1) using P R by (intro sys_inv_endpoint [OF inv]) simp_all
  next
    case (rehash_conn_responses c rs rs')
    note P = pend_inner_perm [OF R rehash_conn_responses(2,3)]
    show ?thesis unfolding rehash_conn_responses(1) using P S by (intro sys_inv_endpoint [OF inv]) simp_all
  next
    case (rehash_conn_streams c ss ss')
    note P = pend_inner_perm [OF S rehash_conn_streams(2,3)]
    show ?thesis unfolding rehash_conn_streams(1) using P R by (intro sys_inv_endpoint [OF inv]) simp_all
  qed
qed

subsection \<open>All steps\<close>

lemma sys_step_inv:
  assumes inv: "sys_inv s" and step: "sys_step s t"
  shows "sys_inv t"
  using step
proof (cases rule: sys_step.cases)
  case (sys_accept conn E conn' w')
  then show ?thesis using sys_inv_accept [OF inv] by blast
next
  case (sys_event c conn ev E len tls conn' w')
  from live_event_safe [OF inv sys_event(2,3), of E len tls] sys_event(4)
  have w': "good_step c (sy_world s) w'" and conn': "conn' = touched conn len tls" by auto
  have "conn_ok (sy_world s) c conn'" using sys_invD(4) [OF inv sys_event(2)] by (simp add: conn')
  then show ?thesis unfolding sys_event(1)
    by (intro sys_inv_good_step [OF inv sys_event(2) w']) (simp_all add: conn')
next
  case (sys_close c conn E len tls conn' w')
  then show ?thesis using sys_inv_close [OF inv] by blast
next
  case (sys_listener ev E conn' w')
  then show ?thesis using sys_inv_listener [OF inv] by blast
next
  case (sys_respond E ref op w' res)
  show ?thesis unfolding sys_respond(1)
    using response_op_inv(1) [OF sys_invD(1) [OF inv] sys_respond(2)] response_op_frame [OF sys_respond(2)]
    by (intro sys_inv_world [OF inv]) simp_all
next
  case (sys_stream_send E ref body w')
  show ?thesis unfolding sys_stream_send(1)
    using stream_send_op_inv [OF sys_invD(1) [OF inv] sys_stream_send(2)]
    by (intro sys_inv_world [OF inv]) simp_all
next
  case (sys_stream_close E ref w')
  show ?thesis unfolding sys_stream_close(1)
    using stream_close_op_inv [OF sys_invD(1) [OF inv] sys_stream_close(2)]
    by (intro sys_inv_world [OF inv]) simp_all
next
  case (sys_route op)
  show ?thesis unfolding sys_route(1)
    using world_invD(1,2) [OF sys_invD(1) [OF inv]] by (intro sys_inv_endpoint [OF inv]) simp_all
next
  case (sys_tls tls)
  show ?thesis unfolding sys_tls(1)
    using world_invD(1,2) [OF sys_invD(1) [OF inv]] by (intro sys_inv_endpoint [OF inv]) simp_all
next
  case (sys_rehash ep)
  then show ?thesis using sys_inv_rehash [OF inv] by blast
qed

lemma sys_init_inv: "sys_init s \<Longrightarrow> sys_inv s"
  by (auto simp: sys_init_iff listen_http_def endpoint_setup_def endpoint_new_def world_new_def Let_def
      sys_inv_def world_inv_def fresh_ok_def listener_ok_def keys_live_def)

interpretation sys: transition_system sys_init sys_step sys_inv
  by unfold_locales (auto intro: sys_init_inv sys_step_inv)

end
