(* ===== verification/Examples.thy ===== *)
theory Examples
  imports System_Safety
begin

text \<open>
  A small concrete run the witnesses share: an environment, a listening connection, a
  connection it accepts and the states of the system before and after.
\<close>

text \<open>The producer counts down and yields one chunk per call; only the pattern \<open>/a\<close> matches.\<close>

definition demo_env :: "nat mg_env" where
  "demo_env =
     \<lparr>env_mem = (\<lambda>_. CHR ''x''), env_match = (\<lambda>uri pattern groups. (pattern = ''/a'', groups)),
      env_get_header = (\<lambda>msg n. None), env_wakeup = (\<lambda>c d. True), env_mgr_alive = True,
      env_io_size = 16384, env_get = (\<lambda>n. if n = 0 then (None, 0) else (Some ''data'', n - 1)),
      env_inet_ntop = (\<lambda>v6 ip. ''127.0.0.1''), env_ntohs = (\<lambda>p. p), env_timegm = tm_sec\<rparr>"

definition demo_addr :: mg_addr where
  "demo_addr = \<lparr>ad_ip = [127, 0, 0, 1], ad_port = 80, ad_is_ip6 = False\<rparr>"

definition demo_raw :: "ulong \<Rightarrow> mg_connection" where
  "demo_raw c =
     \<lparr>c_id = c, c_rem = demo_addr, c_is_tls = False, c_tls = TlsNull, c_send_len = 0, c_data0 = NUL,
      c_fn = EventManagerHandler, c_fn_data = FnEndpoint 0\<rparr>"

definition demo_message :: mg_http_message where
  "demo_message =
     \<lparr>hm_method = mg_null, hm_uri = mg_null, hm_query = mg_null, hm_proto = mg_null, hm_headers = [],
      hm_body = mg_null, hm_message = mg_null\<rparr>"

definition demo_conn :: mg_connection where
  "demo_conn = (demo_raw 2)\<lparr>c_fn := EventManagerContextHandler, c_fn_data := FnContext 0, c_data0 := CHR ''R''\<rparr>"

definition demo_world0 :: "nat world" where
  "demo_world0 = (world_new ''http://0.0.0.0:80'')\<lparr>w_ep := (endpoint_new ''http://0.0.0.0:80'')\<lparr>ep_conn := Some 1\<rparr>\<rparr>"

definition demo_world1 :: "nat world" where
  "demo_world1 = demo_world0\<lparr>w_next := 1, w_ctx := [0 \<mapsto> remote_context_new demo_env 0 (demo_raw 2)]\<rparr>"

definition demo_sys0 :: "nat sys" where
  "demo_sys0 = \<lparr>sy_world = demo_world0, sy_listener = (demo_raw 1)\<lparr>c_data0 := CHR ''E''\<rparr>, sy_conns = Map.empty\<rparr>"

definition demo_sys1 :: "nat sys" where
  "demo_sys1 = demo_sys0\<lparr>sy_world := demo_world1, sy_conns := [2 \<mapsto> demo_conn]\<rparr>"

lemmas demo_defs =
  demo_env_def demo_addr_def demo_raw_def demo_message_def demo_conn_def demo_world0_def demo_world1_def
  demo_sys0_def demo_sys1_def world_new_def endpoint_new_def remote_context_new_def

lemma demo_init: "sys_init demo_sys0"
proof -
  have "listen_http (Some (demo_raw 1)) ''http://0.0.0.0:80'' server_blank =
      (server_blank\<lparr>sv_endpoints := [(endpoint_new ''http://0.0.0.0:80'')\<lparr>ep_conn := Some 1\<rparr>]\<rparr>,
       Some ((demo_raw 1)\<lparr>c_data0 := CHR ''E''\<rparr>, (endpoint_new ''http://0.0.0.0:80'')\<lparr>ep_conn := Some 1\<rparr>),
       [MgHttpListen ''http://0.0.0.0:80''])"
    by (simp add: listen_http_def endpoint_setup_def server_blank_def demo_raw_def Let_def)
  from sys_init.intros [OF this] show ?thesis
    by (simp add: demo_sys0_def demo_world0_def demo_raw_def)
qed

lemma demo_step: "sys_step demo_sys0 demo_sys1"
proof -
  have "mg_call_handler demo_env (demo_raw 2) MG_EV_ACCEPT demo_world0 = Some (demo_conn, demo_world1)"
    by (simp add: mg_call_handler_def event_manager_handler_def handle_secure_def promote_context_eq
        world_defs demo_defs)
  then have "sys_step demo_sys0
      (demo_sys0\<lparr>sy_world := demo_world1, sy_conns := (sy_conns demo_sys0)(c_id (demo_raw 2) \<mapsto> demo_conn)\<rparr>)"
    by (intro sys_accept [where E = demo_env]) (simp_all add: demo_sys0_def demo_raw_def)
  then show ?thesis by (simp add: demo_sys1_def demo_sys0_def demo_raw_def)
qed

lemma demo_reach: "sys_step\<^sup>*\<^sup>* demo_sys0 demo_sys1"
  using demo_step by (rule r_into_rtranclp)

end
