(* ===== verification/Request_Ids.thy ===== *)
theory Request_Ids
  imports System_Safety
begin

text \<open>
  The numbers of requests. The endpoint counts its asynchronous requests in a \<open>size_t\<close> that
  may wrap; until it does, a number is never given twice, and a request is in one of the two
  tables at most.
\<close>

subsection \<open>Numbers in use\<close>

abbreviation counter :: "'p world \<Rightarrow> u64" where
  "counter w \<equiv> ep_request_counter (w_ep w)"

definition owed :: "'p world \<Rightarrow> ulong \<Rightarrow> u64 \<Rightarrow> bool" where
  "owed w c i \<longleftrightarrow> pend_find (pending_responses w) c i \<noteq> None \<or> pend_find (pending_streams w) c i \<noteq> None"

definition one_table :: "'p world \<Rightarrow> bool" where
  "one_table w \<longleftrightarrow>
     (\<forall>c i. pend_find (pending_responses w) c i = None \<or> pend_find (pending_streams w) c i = None)"

definition ids_ok :: "'p world \<Rightarrow> bool" where
  "ids_ok w \<longleftrightarrow> one_table w \<and> (\<forall>c i. owed w c i \<longrightarrow> i < counter w)"

text \<open>What a step does with them: it keeps some of them, or gives out the next one as well.\<close>

definition ids_kept :: "'p world \<Rightarrow> 'p world \<Rightarrow> bool" where
  "ids_kept w w' \<longleftrightarrow>
     counter w' = counter w \<and> (\<forall>c i. owed w' c i \<longrightarrow> owed w c i) \<and> (one_table w \<longrightarrow> one_table w')"

definition ids_next :: "'p world \<Rightarrow> 'p world \<Rightarrow> bool" where
  "ids_next w w' \<longleftrightarrow>
     counter w' = counter w + 1 \<and> pending_streams w' = pending_streams w \<and>
     (\<forall>c i. pend_find (pending_responses w') c i \<noteq> None \<longrightarrow>
        pend_find (pending_responses w) c i \<noteq> None \<or> i = counter w)"

definition ids_step :: "'p world \<Rightarrow> 'p world \<Rightarrow> bool" where
  "ids_step w w' \<longleftrightarrow> ids_kept w w' \<or> ids_next w w'"

lemma ids_kept_ok: "ids_ok w \<Longrightarrow> ids_kept w w' \<Longrightarrow> ids_ok w'"
  by (auto simp: ids_ok_def ids_kept_def)

lemma ids_next_ok:
  assumes "ids_ok w" "ids_next w w'" "unat (counter w) + 1 < 2 ^ 64"
  shows "ids_ok w'"
proof -
  have less: "counter w < counter w + 1"
    using assms(3) by (simp add: word_less_nat_alt unat_word_ariths)
  have "i < counter w'" if "owed w' c i" for c i
    using that assms(1,2) less unfolding ids_ok_def ids_next_def owed_def by (metis less_trans)
  moreover have "one_table w'"
    using assms(1,2) unfolding one_table_def ids_ok_def ids_next_def owed_def by (metis less_irrefl)
  ultimately show ?thesis by (simp add: ids_ok_def)
qed

lemma ids_kept_trans: "ids_kept u v \<Longrightarrow> ids_kept v w \<Longrightarrow> ids_kept u w"
  by (simp add: ids_kept_def)

lemma ids_kept_ep [simp]: "w_ep w' = w_ep w \<Longrightarrow> ids_kept w w'"
  by (simp add: ids_kept_def owed_def one_table_def)

text \<open>Tables that only lose entries.\<close>

lemma ids_kept_sub:
  assumes "counter w' = counter w"
    and "\<And>c i. pend_find (pending_responses w') c i \<noteq> None \<Longrightarrow> pend_find (pending_responses w) c i \<noteq> None"
    and "\<And>c i. pend_find (pending_streams w') c i \<noteq> None \<Longrightarrow> pend_find (pending_streams w) c i \<noteq> None"
  shows "ids_kept w w'"
  using assms unfolding ids_kept_def owed_def one_table_def by metis

lemma emit_ep [simp]: "w_ep (emit ks w) = w_ep w"
  by (simp add: emit_def)

lemma set_objects_ep [simp]:
  "w_ep (set_resp ref r w) = w_ep w" "w_ep (set_strm ref s w) = w_ep w" "w_ep (set_ctx k ctx w) = w_ep w"
  by (simp_all add: world_defs)

subsection \<open>Handlers\<close>

lemma poll_ids:
  assumes inv: "world_inv w" and run: "handle_poll conn w = Some w'"
  shows "ids_kept w w'"
proof (cases "um_find (=) (pending_responses w) (c_id conn)")
  case None
  with run show ?thesis by (simp add: handle_poll_def)
next
  case (Some rs)
  note pok = world_invD(1) [OF inv]
  have rsok: "um_ok (=) rs" using pok Some by (simp add: pend_ok_def)
  have live: "\<forall>e \<in> set rs. w_resp w (snd e) \<noteq> None" using responses_live(2) [OF inv Some] by blast
  let ?rest = "filter (\<lambda>e. \<not> ref_failed (w_resp w) (snd e)) rs"
  have w': "w_ep w' = (w_ep w)\<lparr>ep_pending_responses := um_put (=) (c_id conn) ?rest (pending_responses w)\<rparr>"
    using run Some by (auto simp: handle_poll_def poll_loop_eq [OF live] set_pending_responses_def)
  show ?thesis
  proof (rule ids_kept_sub)
    fix c i
    assume "pend_find (pending_responses w') c i \<noteq> None"
    then show "pend_find (pending_responses w) c i \<noteq> None"
      using Some um_find_filter_sub [OF rsok, of _ i]
      by (auto simp: w' pend_find_put_conn [OF pok] pend_find_def [of "pending_responses w"] split: if_splits)
  qed (simp_all add: w')
qed

lemma stream_ids:
  assumes inv: "pend_ok (pending_streams w)" and run: "handle_stream conn data w = Some (b, w')"
  shows "ids_kept w w'"
proof (cases "w_ep w' = w_ep w")
  case False
  from run False obtain ss rid ref s where ss: "um_find (=) (pending_streams w) (c_id conn) = Some ss"
    and rid: "um_find (=) ss rid = Some (Some ref)"
    and w': "w_ep w' = (w_ep w)\<lparr>ep_pending_streams :=
      (if um_erase (=) rid ss = [] then um_erase (=) (c_id conn) (pending_streams w)
       else um_put (=) (c_id conn) (um_erase (=) rid ss) (pending_streams w))\<rparr>"
    by (auto simp: handle_stream_def async_stream_get_data_def Let_def set_pending_streams_def
        split: option.splits stream_state.splits)
  have ssok: "um_ok (=) ss" using inv ss by (simp add: pend_ok_def)
  show ?thesis
  proof (rule ids_kept_sub)
    fix c i
    assume "pend_find (pending_streams w') c i \<noteq> None"
    then show "pend_find (pending_streams w) c i \<noteq> None"
      using ss um.lookup_erase [OF ssok]
      by (auto simp: w' pend_find_erase_conn [OF inv] pend_find_put_conn [OF inv]
          pend_find_def [of "pending_streams w"] split: if_splits)
  qed (simp_all add: w')
qed simp

text \<open>A response that streams moves from one table to the other.\<close>

lemma response_ids:
  assumes inv: "world_inv w" and run: "handle_response conn data w = Some (b, w')"
  shows "ids_kept w w'"
proof (cases "w_ep w' = w_ep w")
  case False
  let ?c = "c_id conn"
  note pok = world_invD(1) [OF inv] and sok = world_invD(2) [OF inv]
  from run False obtain rs rid ref r where rs: "um_find (=) (pending_responses w) ?c = Some rs"
    "read_size_t data = Some rid" "um_find (=) rs rid = Some ref" "w_resp w ref = Some r"
    by (auto simp: handle_response_def split: option.splits)
  let ?pr = "um_put (=) ?c (um_erase (=) rid rs) (pending_responses w)"
  let ?ps = "pend_put ?c rid (ar_stream r) (pending_streams w)"
  have rsok: "um_ok (=) rs" using pok rs(1) by (simp add: pend_ok_def)
  have found: "pend_find (pending_responses w) ?c rid \<noteq> None" using rs by (simp add: pend_find_def)
  have pr: "pend_find ?pr c i = (if c = ?c \<and> i = rid then None else pend_find (pending_responses w) c i)" for c i
    using um.lookup_erase [OF rsok] rs(1)
    by (auto simp: pend_find_put_conn [OF pok] pend_find_def [of "pending_responses w"])
  show ?thesis
  proof (cases "ar_state r = R_streaming")
    case True
    let ?w1 = "set_pending_responses ?pr (set_pending_streams ?ps (set_resp ref (r\<lparr>ar_stream := None\<rparr>) w))"
    have "handle_stream conn data ?w1 = Some (b, w')"
      using run rs True
      by (simp add: handle_response_def async_response_get_state_def async_response_get_stream_def Let_def)
    moreover have "pend_ok (pending_streams ?w1)" using pend_ok_put [OF sok] by (simp add: world_defs)
    ultimately have "ids_kept ?w1 w'" by (intro stream_ids)
    moreover have "ids_kept w ?w1"
      using found by (auto simp: ids_kept_def owed_def one_table_def world_defs pr pend_find_put [OF sok])
    ultimately show ?thesis by (blast intro: ids_kept_trans)
  next
    case False
    then have "w_ep w' = (w_ep w)\<lparr>ep_pending_responses := ?pr\<rparr>"
      using run rs
      by (auto simp: handle_response_def async_response_get_state_def Let_def set_pending_responses_def)
    then show ?thesis by (intro ids_kept_sub) (auto simp: pr split: if_splits)
  qed
qed simp

lemma wakeup_ids:
  assumes inv: "world_inv w" and data: "read_size_t data = Some rid" and run: "handle_wakeup conn data w = Some w'"
  shows "ids_kept w w'"
proof -
  from handle_stream_safe [OF inv data, of conn] obtain b w1 where
    1: "handle_stream conn data w = Some (b, w1)" "world_inv w1" by (auto simp: good_step_def)
  have k1: "ids_kept w w1" by (rule stream_ids [OF world_invD(2) [OF inv] 1(1)])
  from handle_response_safe [OF 1(2) data, of conn] obtain b2 w2 where 2: "handle_response conn data w1 = Some (b2, w2)" by blast
  have "ids_kept w1 w2" by (rule response_ids [OF 1(2) 2])
  moreover from this have "ids_kept w1 (emit ks w2)" for ks by (simp add: ids_kept_def owed_def one_table_def)
  ultimately show ?thesis
    using run 1 2 k1 by (auto simp: handle_wakeup_def intro: ids_kept_trans split: if_splits)
qed

lemma http_message_ids:
  assumes inv: "world_inv w" and ctx: "context_of conn w = Some (k, ctx)"
    and run: "handle_http_message E conn msg w = Some w'"
  shows "ids_step w w'"
proof -
  have invoke: "ids_step w w'" if "invoke_listener E conn msg groups l w = Some w'" for groups l
  proof (cases "listener_is_async l")
    case True
    obtain w1 ref where add: "add_pending conn w = (w1, ref)" by fastforce
    let ?req = "request_new msg (remote_context_get_remote_ip ctx) (remote_context_get_tls_cert_info ctx) groups"
    have ops: "response_ops E ref (listener_invoke_async l E ?req) w1 = Some w'"
      using that ctx True add by (simp add: invoke_listener_def Let_def)
    have "world_inv w1" using add_pending_safe(1) [OF inv add] by (simp add: good_step_def)
    from response_ops_inv [OF this add_pending_safe(2) [OF inv add], of E "listener_invoke_async l E ?req"] ops
    have ep: "w_ep w' = w_ep w1" by auto
    have w1: "w_ep w1 = (w_ep w)\<lparr>ep_request_counter := counter w + 1,
        ep_pending_responses := pend_put (c_id conn) (counter w) ref (pending_responses w)\<rparr>"
      using add by (auto simp: add_pending_def Let_def set_resp_def)
    have "ids_next w w'"
      using world_invD(1) [OF inv] by (auto simp: ids_next_def ep w1 pend_find_put split: if_splits)
    then show ?thesis by (simp add: ids_step_def)
  next
    case False
    with that ctx have "w_ep w' = w_ep w" by (auto simp: invoke_listener_def split_def Let_def)
    then show ?thesis by (simp add: ids_step_def)
  qed
  show ?thesis
    using run invoke by (auto simp: handle_http_message_def ids_step_def split: option.splits)
qed

lemma closed_tables_ids:
  assumes "world_inv w" and "w_ep w' = w_ep (closed_tables c w)"
  shows "ids_kept w w'"
  using world_invD(1,2) [OF assms(1)]
  by (intro ids_kept_sub)
    (simp_all add: assms(2) closed_tables_def pend_find_erase_conn split: if_splits)

lemma write_ids:
  assumes "world_inv w" "context_of conn w = Some (k, ctx)" "handle_write E conn w = Some w'"
  shows "ids_kept w w'"
  using assms(3) by (auto simp: handle_write_eq [OF assms(1,2)] split_def Let_def)

text \<open>Events of a live connection other than its close.\<close>

lemma event_ids:
  assumes inv: "world_inv w" and ctx: "context_of conn w = Some (k, ctx)" and ep: "rc_endpoint ctx = 0"
    and fn: "c_fn conn = EventManagerContextHandler" and ev: "event_ok ev"
    and run: "mg_call_handler E conn ev w = Some (conn', w')"
  shows "ids_step w w'"
proof -
  have "endpoint_handle E conn ev w = Some (conn', w')"
    using run by (simp add: mg_call_handler_def fn event_manager_context_handler_def ctx remote_context_handle_def ep)
  moreover have "ids_kept w w'" if "setup_context E conn w = Some w'"
    using that ctx
    by (auto simp: setup_context_def set_ctx_def drop_cert_def Let_def split: option.splits)
  moreover have "ids_kept w w'" if "handle_wakeup conn (size_t_bytes rid) w = Some w'" for rid
    by (rule wakeup_ids [OF inv _ that, of rid]) simp
  ultimately show ?thesis
    using ev poll_ids [OF inv, of conn w'] http_message_ids [OF inv ctx, of E _ w'] write_ids [OF inv ctx, of E w']
    by (cases ev) (fastforce simp: with_conn_def ids_step_def)+
qed

subsection \<open>The system\<close>

lemma route_do_counter [simp]: "ep_request_counter (route_do op ep) = ep_request_counter ep"
proof -
  have "ep_request_counter (on_assets args ep) = ep_request_counter ep" for args
    by (induction args ep rule: on_assets.induct) simp_all
  then show ?thesis
    by (cases op) (simp_all add: on_request_def on_async_request_def on_fallback_def on_async_fallback_def on_asset_def)
qed

lemma ids_kept_find:
  assumes "counter w' = counter w"
    and "\<And>c i. pend_find (pending_responses w') c i = pend_find (pending_responses w) c i"
    and "\<And>c i. pend_find (pending_streams w') c i = pend_find (pending_streams w) c i"
  shows "ids_kept w w'"
  using assms by (simp add: ids_kept_def owed_def one_table_def)

lemma rehash_ids:
  assumes inv: "world_inv w" and "rehash (w_ep w) ep"
  shows "ids_kept w (w\<lparr>w_ep := ep\<rparr>)"
  using assms(2)
proof (cases rule: rehash.cases)
  case (rehash_responses m)
  note P = pend_perm(3) [OF world_invD(1) [OF inv] rehash_responses(2)]
  show ?thesis unfolding rehash_responses(1) by (rule ids_kept_find) (simp_all add: P)
next
  case (rehash_streams m)
  note P = pend_perm(3) [OF world_invD(2) [OF inv] rehash_streams(2)]
  show ?thesis unfolding rehash_streams(1) by (rule ids_kept_find) (simp_all add: P)
next
  case (rehash_conn_responses c rs rs')
  note P = pend_inner_perm(2) [OF world_invD(1) [OF inv] rehash_conn_responses(2,3)]
  show ?thesis unfolding rehash_conn_responses(1) by (rule ids_kept_find) (simp_all add: P)
next
  case (rehash_conn_streams c ss ss')
  note P = pend_inner_perm(2) [OF world_invD(2) [OF inv] rehash_conn_streams(2,3)]
  show ?thesis unfolding rehash_conn_streams(1) by (rule ids_kept_find) (simp_all add: P)
qed (intro ids_kept_find; simp)+

lemma sys_step_ids:
  assumes inv: "sys_inv s" and step: "sys_step s t"
  shows "ids_step (sy_world s) (sy_world t)"
proof -
  note winv = sys_invD(1) [OF inv]
  have kept: ?thesis if "ids_kept (sy_world s) (sy_world t)" using that by (simp add: ids_step_def)
  from step show ?thesis
  proof (cases rule: sys_step.cases)
    case (sys_accept conn E conn' w')
    then have "w_ep w' = w_ep (sy_world s)"
      using sys_invD(2) [OF inv]
      by (auto simp: mg_call_handler_def event_manager_handler_def listener_ok_def promote_context_eq)
    then show ?thesis using sys_accept(1) by (intro kept) simp
  next
    case (sys_event c conn ev E len tls conn' w')
    have ok: "conn_ok (sy_world s) c (touched conn len tls)" using sys_invD(4) [OF inv sys_event(2)] by simp
    from conn_okD(1) [OF ok] obtain k ctx where
      "context_of (touched conn len tls) (sy_world s) = Some (k, ctx)" "rc_endpoint ctx = 0" by blast
    from event_ids [OF winv this conn_okD(2) [OF ok] event_enabled_ok [OF winv sys_event(3)] sys_event(4)]
    show ?thesis using sys_event(1) by simp
  next
    case (sys_close c conn E len tls conn' w')
    from live_close_safe [OF inv sys_close(2), of E len tls] sys_close(3)
    have "w_ep w' = w_ep (closed_tables c (sy_world s))" by (auto simp: drop_cert_def split: option.split)
    then show ?thesis using sys_close(1) by (intro kept) (simp add: closed_tables_ids [OF winv])
  next
    case (sys_listener ev E conn' w')
    with listener_event_safe [OF inv sys_listener(2), of E]
    have "w' = sy_world s \<or> w' = closed_tables (c_id (sy_listener s)) (sy_world s)" by (auto split: if_splits)
    then show ?thesis using sys_listener(1) by (intro kept) (auto intro: closed_tables_ids [OF winv])
  next
    case (sys_respond E ref op w' res)
    then show ?thesis using response_op_frame [OF sys_respond(2)] by (intro kept) simp
  next
    case (sys_stream_send E ref body w')
    then show ?thesis using stream_send_op_inv [OF winv sys_stream_send(2)] by (intro kept) simp
  next
    case (sys_stream_close E ref w')
    then show ?thesis using stream_close_op_inv [OF winv sys_stream_close(2)] by (intro kept) simp
  next
    case (sys_route op)
    then show ?thesis by (intro kept ids_kept_find) simp_all
  next
    case (sys_tls t')
    then show ?thesis by (intro kept ids_kept_find) simp_all
  next
    case (sys_rehash ep)
    then show ?thesis using rehash_ids [OF winv sys_rehash(2)] by (intro kept) simp
  qed
qed

text \<open>A step takes at most one number.\<close>

lemma sys_steps_ids:
  assumes "sys_init s" and "(sys_step ^^ n) s t" and "n < 2 ^ 64"
  shows "sys_inv t \<and> ids_ok (sy_world t) \<and> unat (counter (sy_world t)) \<le> n"
  using assms(2,3)
proof (induction n arbitrary: t)
  case 0
  then have "s = t" by simp
  with assms(1) show ?case
    by (auto simp: sys_init_inv sys_init_iff listen_http_def endpoint_setup_def endpoint_new_def world_new_def
        Let_def ids_ok_def one_table_def owed_def)
next
  case (Suc n)
  then obtain u where u: "(sys_step ^^ n) s u" "sys_step u t" by auto
  with Suc have I: "sys_inv u" "ids_ok (sy_world u)" "unat (counter (sy_world u)) \<le> n" by auto
  have small: "unat (counter (sy_world u)) + 1 < 2 ^ 64" using I(3) Suc.prems(2) by simp
  from sys_step_ids [OF I(1) u(2)] have "ids_ok (sy_world t) \<and> unat (counter (sy_world t)) \<le> Suc n"
    unfolding ids_step_def
  proof
    assume "ids_kept (sy_world u) (sy_world t)"
    with I show ?thesis using ids_kept_ok by (auto simp: ids_kept_def)
  next
    assume *: "ids_next (sy_world u) (sy_world t)"
    then have "unat (counter (sy_world t)) = unat (counter (sy_world u)) + 1"
      using small by (simp add: ids_next_def unat_word_ariths)
    with I(3) ids_next_ok [OF I(2) * small] show ?thesis by simp
  qed
  with sys_step_inv [OF I(1) u(2)] show ?case by simp
qed

end

