(* ===== verification/System_Properties.thy ===== *)
theory System_Properties
  imports Examples Request_Ids
begin

text \<open>What holds in every reachable state, and what one event may do.\<close>

subsection \<open>Properties\<close>

text \<open>
  C1. Every state the system can reach, however the event loop, the workers and the user's
  registrations interleave, is consistent.
\<close>
theorem reachable_consistent:
  assumes "sys_init s" and "sys_step\<^sup>*\<^sup>* s t"
  shows "sys_inv t"
  using assms by (rule sys.reach_inv)

theorem reachable_consistent_witness: "sys_inv demo_sys1"
  by (rule reachable_consistent [OF demo_init demo_reach])

text \<open>
  C2. No handler ever meets a null, dangling or mistyped pointer: in a reachable state every
  event on a live connection is handled to its end, and leaves a consistent world.
\<close>
theorem live_events_return:
  assumes "sys_init s" and "sys_step\<^sup>*\<^sup>* s t"
    and "sy_conns t c = Some conn" and "event_enabled (sy_world t) c ev"
  shows "\<exists>w'. mg_call_handler E (touched conn len tls) ev (sy_world t) = Some (touched conn len tls, w') \<and>
    world_inv w'"
  using live_event_safe [OF sys.reach_inv [OF assms(1,2)] assms(3,4), of E len tls]
  by (auto simp: good_step_def)

theorem live_events_return_witness:
  "\<exists>w'. mg_call_handler demo_env (touched demo_conn 0 TlsNull) (MG_EV_HTTP_MSG demo_message) demo_world1 =
    Some (touched demo_conn 0 TlsNull, w') \<and> world_inv w'"
  using live_events_return [OF demo_init demo_reach, of 2 demo_conn "MG_EV_HTTP_MSG demo_message" demo_env 0 TlsNull]
  by (simp add: demo_sys1_def event_enabled_def)



text \<open>
  C17. Accepting a connection in a reachable state returns: TLS is initialised exactly when the
  connection uses it and both a certificate and a key are set, with the authority exactly
  when there is one, and the connection gets a context of its own with its address.
\<close>
theorem accept_gives_context:
  assumes "sys_init s" and "sys_step\<^sup>*\<^sup>* s t"
    and "c_fn conn = c_fn (sy_listener t)" and "c_fn_data conn = c_fn_data (sy_listener t)"
  shows "\<exists>k conn' w'. mg_call_handler E conn MG_EV_ACCEPT (sy_world t) = Some (conn', w') \<and>
    w_ctx (sy_world t) k = None \<and> context_of conn' w' = Some (k, remote_context_new E 0 conn) \<and>
    conn_ok w' (c_id conn) conn' \<and>
    w_calls w' = w_calls (sy_world t) @
      (let m = ep_tls (w_ep (sy_world t)) in
       if c_is_tls conn \<and> ms_len (tl_cert m) > 0 \<and> ms_len (tl_key m) > 0
       then [MgTlsInit (c_id conn) \<lparr>to_ca = (if ms_len (tl_ca m) > 0 then tl_ca m else mg_null),
                                    to_cert = tl_cert m, to_key = tl_key m\<rparr>]
       else [])"
proof -
  note inv = sys.reach_inv [OF assms(1,2)]
  let ?w = "sy_world t"
  have "mg_call_handler E conn MG_EV_ACCEPT ?w =
      Some (promote_context E conn (emit (handle_secure (ep_tls (w_ep ?w)) conn) ?w))"
    using assms(3,4) sys_invD(2) [OF inv]
    by (simp add: mg_call_handler_def event_manager_handler_def listener_ok_def)
  moreover have "w_ctx ?w (w_next ?w) = None"
    using world_invD(5) [OF sys_invD(1) [OF inv]] by (simp add: fresh_ok_def)
  ultimately show ?thesis
    by (intro exI [of _ "w_next ?w"])
      (auto simp: promote_context_eq world_defs context_of_def conn_ok_def remote_context_new_def
        handle_secure_def is_mtls_def Let_def word_neq_0_conv)
qed

theorem accept_gives_context_witness:
  "\<exists>k conn' w'. mg_call_handler demo_env (demo_raw 9) MG_EV_ACCEPT demo_world1 = Some (conn', w') \<and>
    context_of conn' w' = Some (k, remote_context_new demo_env 0 (demo_raw 9))"
  using accept_gives_context [OF demo_init demo_reach, of "demo_raw 9" demo_env]
  by (auto simp: demo_sys1_def demo_sys0_def demo_raw_def)



text \<open>
  C7. Within \<open>2^64\<close> steps of a start no two requests are confused: the number the next
  asynchronous request gets is in no table of any connection, and no request is waiting for an
  answer and streaming at the same time.
\<close>
theorem requests_told_apart:
  assumes "sys_init s" and "(sys_step ^^ n) s t" and "n < 2 ^ 64"
  shows "pend_find (pending_responses (sy_world t)) c (ep_request_counter (w_ep (sy_world t))) = None \<and>
    pend_find (pending_streams (sy_world t)) c (ep_request_counter (w_ep (sy_world t))) = None \<and>
    (pend_find (pending_responses (sy_world t)) c i = None \<or> pend_find (pending_streams (sy_world t)) c i = None)"
  using sys_steps_ids [OF assms] unfolding ids_ok_def one_table_def owed_def by (metis less_irrefl)

theorem requests_told_apart_witness:
  "pend_find (pending_responses demo_world1) 2 0 = None \<and> pend_find (pending_streams demo_world1) 2 0 = None \<and>
    (pend_find (pending_responses demo_world1) 2 1 = None \<or> pend_find (pending_streams demo_world1) 2 1 = None)"
proof -
  have "(sys_step ^^ 1) demo_sys0 demo_sys1" unfolding relpowp_1 by (rule demo_step)
  from requests_told_apart [OF demo_init this, of 2 1] show ?thesis by (simp add: demo_defs)
qed

end
