(* ===== verification/Dispatch_Properties.thy ===== *)
theory Dispatch_Properties
  imports Examples
begin

text \<open>
  Which route a request takes. The maps of routes have no order the user controls, so the
  facts here are stated for routes that do not overlap on the URI at hand, and one shows
  what overlapping routes do.
\<close>

subsection \<open>Routes that match\<close>

definition listener_captures :: "'p mg_env \<Rightarrow> mg_str \<Rightarrow> string \<Rightarrow> 'p listener \<Rightarrow> bool \<times> mg_str list" where
  "listener_captures E uri path l =
     env_match E uri path (replicate (unat (listener_get_groups l + 1)) mg_null)"

definition asset_matches :: "'p mg_env \<Rightarrow> mg_str \<Rightarrow> string \<Rightarrow> bool" where
  "asset_matches E uri path = fst (env_match E uri path [])"

text \<open>Both loops are a search of the standard library.\<close>

lemma find_listener_eq:
  "find_listener E uri ls =
     map_option (\<lambda>(p, l). (l, snd (listener_captures E uri p l)))
       (List.find (\<lambda>(p, l). fst (listener_captures E uri p l)) ls)"
  by (induction ls) (auto simp: listener_captures_def split_def Let_def)

lemma find_asset_eq: "find_asset E uri as = List.find (\<lambda>(p, a). asset_matches E uri p) as"
  by (induction as) (auto simp: asset_matches_def)

lemma find_only:
  assumes "x \<in> set xs" "P x" and only: "\<And>y. y \<in> set xs \<Longrightarrow> P y \<Longrightarrow> y = x"
  shows "List.find P xs = Some x"
proof (cases "List.find P xs")
  case None
  with assms(1,2) show ?thesis by (auto simp: find_None_iff)
next
  case (Some y)
  then have "P y" "y \<in> set xs" by (auto simp: find_Some_iff)
  with only Some show ?thesis by simp
qed

lemma find_listener_unique:
  assumes "(p, l) \<in> set ls" "fst (listener_captures E uri p l)"
    and only: "\<And>q m. (q, m) \<in> set ls \<Longrightarrow> fst (listener_captures E uri q m) \<Longrightarrow> (q, m) = (p, l)"
  shows "find_listener E uri ls = Some (l, snd (listener_captures E uri p l))"
proof -
  have "List.find (\<lambda>(p, l). fst (listener_captures E uri p l)) ls = Some (p, l)"
  proof (rule find_only)
    fix y
    assume y: "y \<in> set ls" "(\<lambda>(p, l). fst (listener_captures E uri p l)) y"
    obtain q m where "y = (q, m)" by fastforce
    with y only [of q m] show "y = (p, l)" by simp
  qed (use assms(1,2) in simp_all)
  then show ?thesis by (simp add: find_listener_eq)
qed

text \<open>With at most one match the order of the entries does not matter.\<close>

lemma find_perm:
  assumes "mset ys = mset xs" and "\<And>x y. x \<in> set xs \<Longrightarrow> y \<in> set xs \<Longrightarrow> P x \<Longrightarrow> P y \<Longrightarrow> x = y"
  shows "List.find P ys = List.find P xs"
proof (cases "List.find P xs")
  case None
  then have "List.find P ys = None" using mset_eq_setD [OF assms(1)] by (simp add: find_None_iff)
  with None show ?thesis by simp
next
  case (Some x)
  then have "P x" "x \<in> set xs" by (auto simp: find_Some_iff)
  then have "List.find P ys = Some x"
    using mset_eq_setD [OF assms(1)] assms(2) by (intro find_only) auto
  with Some show ?thesis by simp
qed

lemma um_unique:
  assumes "um_ok (=) m" "um_find (=) m k = Some v"
  shows "(k, v) \<in> set m" and "(k, v') \<in> set m \<Longrightarrow> v' = v"
proof -
  show "(k, v) \<in> set m" using um_find_Some_in [OF assms(2)] by auto
  show "(k, v') \<in> set m \<Longrightarrow> v' = v"
    using um_find_in_set [OF identity_equivp assms(1)] assms(2) by fastforce
qed

subsection \<open>Synchronous handlers\<close>

lemma sync_answer_at_most_one:
  fixes ops :: "'a Response.response_op list"
  shows "length (snd (run_ops response_do ops rc)) \<le> 1"
  using rs_once.run_one_output [of ops rc]
proof
  assume "snd (run_ops response_do ops rc) = []"
  then show ?thesis by simp
next
  have one: "length (snd (response_do op x)) \<le> 1" for op :: "'a Response.response_op" and x :: "response \<times> 'a remote_context"
    by (cases op; cases x)
      (auto simp: response_send_def response_stream_def Let_def split: option.split)
  assume "\<exists>pre a post. ops = pre @ a # post \<and> snd (run_ops response_do pre rc) = [] \<and>
      snd (run_ops response_do ops rc) = snd (response_do a (fst (run_ops response_do pre rc)))"
  then show ?thesis using one by (elim exE conjE) simp
qed

subsection \<open>Properties\<close>

text \<open>
  C18. A synchronous handler whose route is the only one that matches is invoked with the
  captures, and the connection gets its answer at once: at most one reply or preamble,
  whatever the handler does, with no request left pending.
\<close>
theorem sync_route_answers_once:
  assumes "um_ok (=) (ep_listeners (w_ep w))"
    and "um_find (=) (ep_listeners (w_ep w)) path = Some (lambda_http_listener (SyncCallback f) n)"
    and "env_match E (hm_uri msg) path (replicate (unat (n + 1)) mg_null) = (True, groups)"
    and "\<forall>q m. um_find (=) (ep_listeners (w_ep w)) q = Some m \<longrightarrow> fst (listener_captures E (hm_uri msg) q m) \<longrightarrow> q = path"
    and "context_of conn w = Some (k, ctx)"
  shows "\<exists>w' answer. handle_http_message E conn msg w = Some w' \<and> w_calls w' = w_calls w @ answer \<and>
    answer = snd (run_ops response_do (f E (request_new msg (rc_ip ctx) (rc_tls_cert ctx) groups))
      (response_new conn, ctx)) \<and>
    length answer \<le> 1 \<and> pending_responses w' = pending_responses w \<and> w_resp w' = w_resp w"
proof -
  let ?l = "lambda_http_listener (SyncCallback f) n"
  have cap: "listener_captures E (hm_uri msg) path ?l = (True, groups)"
    using assms(3) by (simp add: listener_captures_def lambda_http_listener_def listener_get_groups_def)
  have "(q, m) = (path, ?l)" if "(q, m) \<in> set (ep_listeners (w_ep w))" "fst (listener_captures E (hm_uri msg) q m)" for q m
    using assms(4) that um_unique(2) [OF assms(1,2)] um_find_in_set [OF identity_equivp assms(1) that(1)]
    by auto
  from find_listener_unique [OF um_unique(1) [OF assms(1,2)] _ this, of E "hm_uri msg"] cap
  have "find_listener E (hm_uri msg) (ep_listeners (w_ep w)) = Some (?l, groups)" by simp
  then show ?thesis
    using assms(5) sync_answer_at_most_one [of "f E (request_new msg (rc_ip ctx) (rc_tls_cert ctx) groups)" "(response_new conn, ctx)"]
    by (simp add: handle_http_message_def invoke_listener_def listener_is_async_def lambda_http_listener_def
        listener_invoke_sync_def remote_context_get_remote_ip_def remote_context_get_tls_cert_info_def
        split_def Let_def world_defs)
qed

definition demo_sync :: "nat mg_env \<Rightarrow> request \<Rightarrow> nat Response.response_op list" where
  "demo_sync E req = [RSend 200 ''hi'', RStream 200 ''chunked'' 3, RSend 500 '''']"

definition demo_world2 :: "nat world" where
  "demo_world2 = demo_world1\<lparr>w_ep := on_request ''/a'' demo_sync (w_ep demo_world1)\<rparr>"

lemma demo_listeners:
  "ep_listeners (w_ep demo_world2) = [(''/a'', lambda_http_listener (SyncCallback demo_sync) 0)]"
  "context_of demo_conn demo_world2 = Some (0, remote_context_new demo_env 0 (demo_raw 2))"
  by (simp_all add: demo_world2_def on_request_def context_of_def demo_defs count_groups_def)

theorem sync_route_answers_once_witness:
  "\<exists>w' answer. handle_http_message demo_env demo_conn demo_message demo_world2 = Some w' \<and>
    w_calls w' = w_calls demo_world2 @ answer \<and>
    answer = snd (run_ops response_do (demo_sync demo_env (request_new demo_message ''127.0.0.1:80'' None [mg_null]))
      (response_new demo_conn, remote_context_new demo_env 0 (demo_raw 2))) \<and>
    length answer \<le> 1 \<and> pending_responses w' = pending_responses demo_world2 \<and> w_resp w' = w_resp demo_world2"
proof -
  have ok: "um_ok (=) (ep_listeners (w_ep demo_world2))"
    and found: "um_find (=) (ep_listeners (w_ep demo_world2)) ''/a'' = Some (lambda_http_listener (SyncCallback demo_sync) 0)"
    and only: "\<forall>q m. um_find (=) (ep_listeners (w_ep demo_world2)) q = Some m \<longrightarrow>
      fst (listener_captures demo_env (hm_uri demo_message) q m) \<longrightarrow> q = ''/a''"
    by (auto simp: demo_listeners)
  have hit: "env_match demo_env (hm_uri demo_message) ''/a'' (replicate (unat (0 + 1 :: u64)) mg_null) = (True, [mg_null])"
    by (simp add: demo_env_def)
  have "digit 8 = CHR ''8''" "digit 0 = CHR ''0''" by code_simp+
  then have ctx: "rc_ip (remote_context_new demo_env 0 (demo_raw 2)) = ''127.0.0.1:80''"
    "rc_tls_cert (remote_context_new demo_env 0 (demo_raw 2)) = None"
    by (simp_all add: remote_context_new_def demo_env_def demo_raw_def demo_addr_def format_ip_def
        fmt_int_def dec_nat.simps Let_def)
  from sync_route_answers_once [OF ok found hit only demo_listeners(2)] show ?thesis
    unfolding ctx by blast
qed


definition demo_world3 :: "nat world" where
  "demo_world3 = demo_world1\<lparr>w_ep := on_assets [(''/a'', ''/var/www'')] (w_ep demo_world1)\<rparr>"


text \<open>
  C21. A request nothing else matches goes to the fallback, and without one to a single 404.
\<close>
theorem fallback_or_not_found:
  assumes "\<forall>(q, m) \<in> set (ep_listeners (w_ep w)). \<not> fst (listener_captures E (hm_uri msg) q m)"
    and "\<forall>(q, a) \<in> set (ep_assets (w_ep w)). \<not> asset_matches E (hm_uri msg) q"
  shows "handle_http_message E conn msg w =
    (case ep_fallback (w_ep w) of
       Some l \<Rightarrow> invoke_listener E conn msg [] l w
     | None \<Rightarrow> Some (emit [MgHttpReply (c_id conn) 404 (''Content-Type: text/plain'' @ crlf) (''Not Found'' @ [LF])] w))"
proof -
  have "find_listener E (hm_uri msg) (ep_listeners (w_ep w)) = None"
    using assms(1) by (auto simp: find_listener_eq find_None_iff)
  moreover have "find_asset E (hm_uri msg) (ep_assets (w_ep w)) = None"
    using assms(2) by (auto simp: find_asset_eq find_None_iff)
  ultimately show ?thesis by (simp add: handle_http_message_def not_found_reply_def split: option.split)
qed

theorem fallback_or_not_found_witness:
  "handle_http_message demo_env demo_conn demo_message demo_world1 =
    Some (emit [MgHttpReply 2 404 (''Content-Type: text/plain'' @ crlf) (''Not Found'' @ [LF])] demo_world1)"
  using fallback_or_not_found [of demo_world1 demo_env demo_message demo_conn] by (simp add: demo_defs)


definition demo_endpoint2 :: "nat endpoint" where
  "demo_endpoint2 = on_request ''/b'' demo_sync (on_request ''/a'' demo_sync (endpoint_new ''''))"


text \<open>
  Two patterns that both match leave the choice to the order of the hash map: the same two
  registrations, kept in one order or the other, send the same request to different handlers.
\<close>
lemma overlapping_routes_depend_on_order:
  "\<exists>(E :: nat mg_env) (ep :: nat endpoint) ls. mset ls = mset (ep_listeners ep) \<and>
     ep = on_request ''/api/*'' (\<lambda>E r. [RSend 200 ''star'']) (on_request ''/api/#'' (\<lambda>E r. [RSend 200 ''hash'']) (endpoint_new '''')) \<and>
     map_option (\<lambda>(l, g). listener_invoke_sync l E (request_new demo_message '''' None g)) (find_listener E mg_null ls) = Some [RSend 200 ''star''] \<and>
     map_option (\<lambda>(l, g). listener_invoke_sync l E (request_new demo_message '''' None g)) (find_listener E mg_null (ep_listeners ep)) = Some [RSend 200 ''hash'']"
proof -
  define E where "E = demo_env\<lparr>env_match := \<lambda>uri pattern groups. (True, groups)\<rparr>"
  define ep where "ep = (on_request ''/api/*'' (\<lambda>E r. [RSend 200 ''star''])
    (on_request ''/api/#'' (\<lambda>E r. [RSend 200 ''hash'']) (endpoint_new '''')) :: nat endpoint)"
  show ?thesis
    by (intro exI [of _ E] exI [of _ ep] exI [of _ "rev (ep_listeners ep)"])
      (simp add: ep_def E_def on_request_def endpoint_new_def lambda_http_listener_def listener_invoke_sync_def Let_def)
qed

text \<open>
  The latest registration of a path is the one kept, the others stay, and the capture array
  of a route has one element more than the pattern has wildcards.
\<close>
lemma registration_replaces:
  assumes "um_ok (=) (ep_listeners ep)"
  shows "um_find (=) (ep_listeners (on_request path f ep)) q =
      (if q = path then Some \<lparr>l_groups = of_nat (length (filter is_wildcard path)), l_callback = SyncCallback f\<rparr>
       else um_find (=) (ep_listeners ep) q) \<and>
    um_find (=) (ep_listeners (on_async_request path g ep)) q =
      (if q = path then Some \<lparr>l_groups = of_nat (length (filter is_wildcard path)), l_callback = AsyncCallback g\<rparr>
       else um_find (=) (ep_listeners ep) q) \<and>
    um_ok (=) (ep_listeners (on_request path f ep))"
proof -
  have "count_groups path = of_nat (length (filter is_wildcard path))"
    by (simp add: count_groups_def count_groups_from_eq)
  then show ?thesis
    using assms(1) by (simp add: on_request_def on_async_request_def um.lookup_put um.ok_put lambda_http_listener_def)
qed

text \<open>
  An asset registered on the path of a directory stays a directory, with the file as its root.
\<close>
lemma asset_over_directory:
  assumes "um_ok (=) (ep_assets ep)"
  shows "\<exists>a. um_find (=) (ep_assets (on_asset path asset mime_type hs (on_assets [(path, dir)] ep))) path = Some a \<and>
    a_is_dir a \<and> a_path a = asset"
  using assms by (simp add: on_asset_def asset_at_def um.lookup_put um.ok_put)

text \<open>
  The root directory of a pattern shorter than the two characters \<open>/#\<close> that are cut off:
  \<open>path.size() - 2\<close> wraps, and the whole pattern is kept.
\<close>
lemma short_pattern_kept:
  assumes "length path < 2" and "a_is_dir asset"
  shows "\<exists>opts. serve_asset conn path asset = [MgHttpServeDir (c_id conn) opts] \<and>
    so_root_dir opts = Some (c_str (path @ ''='' @ a_path asset))"
proof -
  from assms(1) consider "path = []" | c where "path = [c]" by (cases path) auto
  then have "take (unat (of_nat (length path) - 2 :: u64)) path = path"
    by cases (simp_all add: Suc_le_eq unat_gt_0)
  then show ?thesis using assms(2) by (simp add: serve_asset_def Let_def)
qed

end
