(* ===== verification/Async_Flow.thy ===== *)
theory Async_Flow
  imports Examples
begin

text \<open>
  Requests that are answered later: what a wakeup does for a response and for each state of a
  stream, and the conversations they add up to.
\<close>

subsection \<open>Looking a request up\<close>

lemma pend_find_SomeD:
  assumes "pend_find m c i = Some x"
  shows "\<exists>inner. um_find (=) m c = Some inner \<and> um_find (=) inner i = Some x"
  using assms by (auto simp: pend_find_def split: option.splits)

text \<open>What is pending is among the objects a write reaches.\<close>

lemma pend_find_refs:
  assumes "pend_find m c i = Some p"
  shows "p \<in> set (concat (map (map snd \<circ> snd) m))"
proof -
  from pend_find_SomeD [OF assms] obtain inner where
    inner: "um_find (=) m c = Some inner" "um_find (=) inner i = Some p" by blast
  from um_find_Some_in [OF inner(1)] um_find_Some_in [OF inner(2)]
  have "(c, inner) \<in> set m" "(i, p) \<in> set inner" by auto
  then show ?thesis by force
qed

lemma handle_stream_absent:
  assumes "pend_find (pending_streams w) (c_id conn) rid = None"
  shows "handle_stream conn (size_t_bytes rid) w = Some (False, w)"
  using assms by (auto simp: handle_stream_def pend_find_def split: option.splits)

lemma handle_response_absent:
  assumes "pend_find (pending_responses w) (c_id conn) rid = None"
  shows "handle_response conn (size_t_bytes rid) w = Some (False, emit [internal_server_error_reply conn] w)"
  using assms by (auto simp: handle_response_def pend_find_def split: option.splits)

lemma emit_emit [simp]: "emit ks (emit ks' w) = emit (ks' @ ks) w"
  by (simp add: emit_def)

lemma stale_wakeup_eq:
  assumes "pend_find (pending_streams w) (c_id conn) rid = None"
    and "pend_find (pending_responses w) (c_id conn) rid = None"
  shows "handle_wakeup conn (size_t_bytes rid) w =
    Some (emit [internal_server_error_reply conn, internal_server_error_reply conn] w)"
  using assms by (simp add: handle_wakeup_def handle_stream_absent handle_response_absent)

lemma handle_response_reply:
  assumes inv: "world_inv w"
    and p: "pend_find (pending_responses w) (c_id conn) rid = Some ref"
    and r: "w_resp w ref = Some r" and st: "ar_state r \<noteq> R_streaming"
    and ns: "pend_find (pending_streams w) (c_id conn) rid = None"
  shows "\<exists>w'. handle_wakeup conn (size_t_bytes rid) w = Some w' \<and>
    w_calls w' = w_calls w @ [MgHttpReply (c_id conn) (pl_code (ar_payload r))
      (c_str (pl_headers (ar_payload r))) (pl_body (ar_payload r))] \<and>
    w_resp w' = (w_resp w)(ref \<mapsto> r\<lparr>ar_state := R_completed\<rparr>) \<and>
    (\<forall>c i. pend_find (pending_responses w') c i =
       (if c = c_id conn \<and> i = rid then None else pend_find (pending_responses w) c i)) \<and>
    pending_streams w' = pending_streams w \<and> w_strm w' = w_strm w"
proof -
  from pend_find_SomeD [OF p] obtain rs where rs: "um_find (=) (pending_responses w) (c_id conn) = Some rs"
    "um_find (=) rs rid = Some ref" by blast
  note pok = world_invD(1) [OF inv]
  have rsok: "um_ok (=) rs" using pok rs(1) by (simp add: pend_ok_def)
  let ?m = "um_put (=) (c_id conn) (um_erase (=) rid rs) (pending_responses w)"
  have find: "pend_find ?m c i = (if c = c_id conn \<and> i = rid then None else pend_find (pending_responses w) c i)" for c i
    using um.lookup_erase [OF rsok] rs(1)
    by (auto simp: pend_find_put_conn [OF pok] pend_find_def [of "pending_responses w"])
  show ?thesis
    using rs r st
    by (simp add: handle_wakeup_def handle_stream_absent [OF ns] handle_response_def
        async_response_get_state_def async_response_get_payload_def async_response_mark_completed_def
        Let_def world_defs find)
qed

subsection \<open>One stream\<close>

text \<open>The stream of a request is registered, in this state and with this data.\<close>

definition stream_at ::
  "'p world \<Rightarrow> mg_connection \<Rightarrow> u64 \<Rightarrow> nat \<Rightarrow> stream_state \<Rightarrow> string \<Rightarrow> bool" where
  "stream_at w conn rid ref st data \<longleftrightarrow>
     world_inv w \<and> pend_find (pending_streams w) (c_id conn) rid = Some (Some ref) \<and>
     w_strm w ref = Some \<lparr>as_conn = c_id conn, as_id = rid, as_data = data, as_state = st\<rparr> \<and>
     (\<exists>k ctx. context_of conn w = Some (k, ctx) \<and> rc_stream ctx = None)"

definition env_open :: "'p mg_env \<Rightarrow> bool" where
  "env_open E \<longleftrightarrow> env_mgr_alive E \<and> (\<forall>c d. env_wakeup E c d)"

lemma context_of_same: "w_ctx w' = w_ctx w \<Longrightarrow> context_of conn w' = context_of conn w"
  by (simp add: context_of_def split: conn_data.split)

lemma stream_at_set:
  assumes "stream_at w conn rid ref st x" and "list_all wakeup_ok calls"
    and "s' = \<lparr>as_conn = c_id conn, as_id = rid, as_data = data, as_state = st'\<rparr>"
  shows "stream_at (emit calls (set_strm ref s' w)) conn rid ref st' data"
proof -
  from assms have w: "world_inv w"
    and s: "w_strm w ref = Some \<lparr>as_conn = c_id conn, as_id = rid, as_data = x, as_state = st\<rparr>"
    by (simp_all add: stream_at_def)
  have "world_inv (set_strm ref s' w)"
    by (rule world_inv_set_strm(1) [OF w s]) (simp_all add: assms(3))
  then have "world_inv (emit calls (set_strm ref s' w))" using assms(2) by simp
  moreover have "context_of conn (emit calls (set_strm ref s' w)) = context_of conn w"
    by (rule context_of_same) (simp add: world_defs)
  ultimately show ?thesis
    using assms(1,3) by (simp add: stream_at_def) (simp add: world_defs)
qed

lemma stream_at_send:
  assumes "stream_at w conn rid ref st x" and "env_open E"
  shows "\<exists>w'. stream_send_op E ref data w = Some w' \<and> stream_at w' conn rid ref S_has_data data \<and>
    w_calls w' = w_calls w @ [MgWakeup (c_id conn) (size_t_bytes rid)]"
proof -
  let ?s = "\<lparr>as_conn = c_id conn, as_id = rid, as_data = data, as_state = S_has_data\<rparr>"
  let ?w = "emit [MgWakeup (c_id conn) (size_t_bytes rid)] (set_strm ref ?s w)"
  have "stream_send_op E ref data w = Some ?w"
    using assms by (simp add: stream_at_def env_open_def stream_send_op_def async_stream_send_def Let_def)
  moreover have "stream_at ?w conn rid ref S_has_data data" by (rule stream_at_set [OF assms(1)]) auto
  moreover have "w_calls ?w = w_calls w @ [MgWakeup (c_id conn) (size_t_bytes rid)]" by (simp add: world_defs)
  ultimately show ?thesis by blast
qed

lemma stream_at_close:
  assumes "stream_at w conn rid ref st x" and "env_open E"
  shows "\<exists>w'. stream_close_op E ref w = Some w' \<and> stream_at w' conn rid ref S_close '''' \<and>
    w_calls w' = w_calls w @ [MgWakeup (c_id conn) (size_t_bytes rid)] \<and>
    pending_responses w' = pending_responses w"
proof -
  let ?s = "\<lparr>as_conn = c_id conn, as_id = rid, as_data = '''', as_state = S_close\<rparr>"
  let ?w = "emit [MgWakeup (c_id conn) (size_t_bytes rid)] (set_strm ref ?s w)"
  have "stream_close_op E ref w = Some ?w"
    using assms by (simp add: stream_at_def env_open_def stream_close_op_def async_stream_close_def Let_def)
  moreover have "stream_at ?w conn rid ref S_close ''''" by (rule stream_at_set [OF assms(1)]) auto
  moreover have "w_calls ?w = w_calls w @ [MgWakeup (c_id conn) (size_t_bytes rid)]"
    "pending_responses ?w = pending_responses w" by (simp_all add: world_defs)
  ultimately show ?thesis by blast
qed

subsection \<open>Wakeups of a stream\<close>

lemma stream_at_lookup:
  assumes "stream_at w conn rid ref st x"
  shows "\<exists>ss. um_find (=) (pending_streams w) (c_id conn) = Some ss \<and> um_find (=) ss rid = Some (Some ref)"
  using assms by (auto simp: stream_at_def dest: pend_find_SomeD)

text \<open>A preamble or a chunk goes out and the stream waits for the buffer to drain.\<close>

lemma stream_at_wakeup_data:
  assumes at: "stream_at w conn rid ref st x" and st: "st = S_start \<or> st = S_has_data"
  shows "\<exists>w'. handle_wakeup conn (size_t_bytes rid) w = Some w' \<and> stream_at w' conn rid ref S_flush '''' \<and>
    w_calls w' = w_calls w @
      [if st = S_start then MgSend (c_id conn) x else MgHttpWriteChunk (c_id conn) x] \<and>
    pending_responses w' = pending_responses w \<and> w_resp w' = w_resp w"
proof -
  let ?s = "\<lparr>as_conn = c_id conn, as_id = rid, as_data = '''', as_state = S_flush\<rparr>"
  let ?k = "if st = S_start then MgSend (c_id conn) x else MgHttpWriteChunk (c_id conn) x"
  let ?w = "emit [?k] (set_strm ref ?s w)"
  from stream_at_lookup [OF at] obtain ss where
    "um_find (=) (pending_streams w) (c_id conn) = Some ss" "um_find (=) ss rid = Some (Some ref)" by blast
  then have "handle_wakeup conn (size_t_bytes rid) w = Some ?w"
    using at st
    by (auto simp: handle_wakeup_def handle_stream_def stream_at_def async_stream_get_state_def
        async_stream_get_data_def async_stream_mark_flush_def Let_def world_defs)
  moreover have "stream_at ?w conn rid ref S_flush ''''" by (rule stream_at_set [OF at]) auto
  moreover have "w_calls ?w = w_calls w @ [?k]" "pending_responses ?w = pending_responses w" "w_resp ?w = w_resp w"
    by (simp_all add: world_defs)
  ultimately show ?thesis by blast
qed

text \<open>The terminal chunk goes out and the stream is forgotten.\<close>

lemma stream_at_wakeup_close:
  assumes at: "stream_at w conn rid ref S_close x"
  shows "\<exists>w'. handle_wakeup conn (size_t_bytes rid) w = Some w' \<and>
    w_calls w' = w_calls w @ [MgHttpWriteChunk (c_id conn) ''''] \<and>
    pend_find (pending_streams w') (c_id conn) rid = None \<and>
    w_strm w' ref = Some \<lparr>as_conn = c_id conn, as_id = rid, as_data = x, as_state = S_completed\<rparr> \<and>
    pending_responses w' = pending_responses w \<and> w_resp w' = w_resp w \<and> w_ctx w' = w_ctx w"
proof -
  from stream_at_lookup [OF at] obtain ss where
    ss: "um_find (=) (pending_streams w) (c_id conn) = Some ss" "um_find (=) ss rid = Some (Some ref)" by blast
  from at have inv: "world_inv w" by (simp add: stream_at_def)
  note pok = world_invD(2) [OF inv]
  have ssok: "um_ok (=) ss" using pok ss(1) by (simp add: pend_ok_def)
  have "pend_find (um_erase (=) (c_id conn) (pending_streams w)) (c_id conn) rid = None"
    "pend_find (um_put (=) (c_id conn) (um_erase (=) rid ss) (pending_streams w)) (c_id conn) rid = None"
    using um.lookup_erase [OF ssok] by (simp_all add: pend_find_erase_conn [OF pok] pend_find_put_conn [OF pok])
  then show ?thesis
    using at ss
    by (simp add: handle_wakeup_def handle_stream_def stream_at_def async_stream_get_state_def
        async_stream_mark_completed_def Let_def world_defs)
qed

text \<open>A write on a connection without a synchronous stream only lets streams go on.\<close>

lemma handle_write_plain:
  assumes inv: "world_inv w" and ctx: "context_of conn w = Some (k, ctx)" "rc_stream ctx = None"
  shows "handle_write E conn w = Some (w\<lparr>w_strm := \<lambda>ref.
    if Some ref \<in> set (concat (map (map snd \<circ> snd) (pending_streams w)))
    then map_option (pump_async_stream E conn) (w_strm w ref) else w_strm w ref\<rparr>)"
proof -
  have "pump_stream E conn ctx = (ctx, [])" using ctx(2) by (simp add: pump_stream_def)
  moreover have "set_ctx k ctx w = w" using context_of_ctx [OF ctx(1)] by (simp add: set_ctx_def fun_upd_idem)
  ultimately show ?thesis
    using handle_write_eq [OF inv ctx(1), of E] by (simp add: emit_def cong: if_cong)
qed

text \<open>A write with room in the buffer lets a producer that waits for the flush go on.\<close>

lemma stream_at_write_any:
  assumes at: "stream_at w conn rid ref st x"
  shows "\<exists>w'. handle_write E (conn\<lparr>c_send_len := len\<rparr>) w = Some w' \<and>
    stream_at w' conn rid ref (if st = S_flush \<and> len < env_io_size E then S_empty else st) x \<and>
    w_calls w' = w_calls w \<and> pending_responses w' = pending_responses w \<and> w_resp w' = w_resp w"
proof -
  let ?conn = "conn\<lparr>c_send_len := len\<rparr>"
  from at obtain k ctx where inv: "world_inv w" and ctx: "context_of conn w = Some (k, ctx)" "rc_stream ctx = None"
    and p: "pend_find (pending_streams w) (c_id conn) rid = Some (Some ref)"
    and s: "w_strm w ref = Some \<lparr>as_conn = c_id conn, as_id = rid, as_data = x, as_state = st\<rparr>"
    by (auto simp: stream_at_def)
  have ctx': "context_of ?conn w = Some (k, ctx)" using ctx(1) by (simp add: context_of_def)
  define w' where "w' = w\<lparr>w_strm := \<lambda>ref. if Some ref \<in> set (concat (map (map snd \<circ> snd) (pending_streams w)))
    then map_option (pump_async_stream E ?conn) (w_strm w ref) else w_strm w ref\<rparr>"
  have run: "handle_write E ?conn w = Some w'"
    unfolding w'_def by (rule handle_write_plain [OF inv ctx' ctx(2)])
  then have "world_inv w'" using handle_write_safe [OF inv ctx', of E] by (auto simp: good_step_def)
  moreover have "Some ref \<in> set (concat (map (map snd \<circ> snd) (pending_streams w)))"
    by (rule pend_find_refs [OF p])
  then have "w_strm w' ref = Some \<lparr>as_conn = c_id conn, as_id = rid, as_data = x,
      as_state = (if st = S_flush \<and> len < env_io_size E then S_empty else st)\<rparr>"
    using s by (simp add: w'_def pump_async_stream_def async_stream_get_state_def async_stream_mark_empty_def not_less)
  moreover have same: "w_ctx w' = w_ctx w" "w_ep w' = w_ep w" "w_calls w' = w_calls w" "w_resp w' = w_resp w"
    by (simp_all add: w'_def)
  ultimately have "stream_at w' conn rid ref (if st = S_flush \<and> len < env_io_size E then S_empty else st) x"
    using p ctx context_of_same [of w' w conn] by (simp add: stream_at_def)
  with run same show ?thesis by auto
qed

lemma stream_at_write:
  assumes "stream_at w conn rid ref S_flush x" and "c_send_len conn < env_io_size E"
  shows "\<exists>w'. handle_write E conn w = Some w' \<and> stream_at w' conn rid ref S_empty x \<and>
    w_calls w' = w_calls w \<and> pending_responses w' = pending_responses w"
  using stream_at_write_any [OF assms(1), of E "c_send_len conn"] assms(2) by auto

subsection \<open>A whole stream\<close>

text \<open>
  What a producer does that waits before it sends: send a chunk, the event loop takes it, a
  write with room in the buffer lets \<open>wait\<close> return; at the end, close.
\<close>

fun stream_chunks ::
  "'p mg_env \<Rightarrow> mg_connection \<Rightarrow> u64 \<Rightarrow> nat \<Rightarrow> string list \<Rightarrow> 'p world \<Rightarrow> 'p world option" where
  "stream_chunks E conn rid ref [] w =
     (case stream_close_op E ref w of
        None \<Rightarrow> None
      | Some w1 \<Rightarrow> handle_wakeup conn (size_t_bytes rid) w1)"
| "stream_chunks E conn rid ref (d # ds) w =
     (case stream_send_op E ref d w of
        None \<Rightarrow> None
      | Some w1 \<Rightarrow>
          (case handle_wakeup conn (size_t_bytes rid) w1 of
             None \<Rightarrow> None
           | Some w2 \<Rightarrow>
               (case handle_write E conn w2 of
                  None \<Rightarrow> None
                | Some w3 \<Rightarrow> stream_chunks E conn rid ref ds w3)))"

lemma stream_chunks_calls:
  assumes "stream_at w conn rid ref S_empty x" and "env_open E" and "c_send_len conn < env_io_size E"
  shows "\<exists>w'. stream_chunks E conn rid ref ds w = Some w' \<and>
    net_calls (w_calls w') = net_calls (w_calls w) @
      map (MgHttpWriteChunk (c_id conn)) ds @ [MgHttpWriteChunk (c_id conn) ''''] \<and>
    pend_find (pending_streams w') (c_id conn) rid = None \<and>
    (\<exists>s. w_strm w' ref = Some s \<and> as_state s = S_completed)"
  using assms(1)
proof (induction ds arbitrary: w x)
  case Nil
  from stream_at_close [OF Nil assms(2)] obtain w1 where 1: "stream_close_op E ref w = Some w1"
    "stream_at w1 conn rid ref S_close ''''" "w_calls w1 = w_calls w @ [MgWakeup (c_id conn) (size_t_bytes rid)]"
    by blast
  from stream_at_wakeup_close [OF 1(2)] 1 show ?case by auto
next
  case (Cons d ds)
  from stream_at_send [OF Cons.prems assms(2), of d] obtain w1 where 1: "stream_send_op E ref d w = Some w1"
    "stream_at w1 conn rid ref S_has_data d" "w_calls w1 = w_calls w @ [MgWakeup (c_id conn) (size_t_bytes rid)]"
    by blast
  from stream_at_wakeup_data [OF 1(2)] obtain w2 where 2: "handle_wakeup conn (size_t_bytes rid) w1 = Some w2"
    "stream_at w2 conn rid ref S_flush ''''" "w_calls w2 = w_calls w1 @ [MgHttpWriteChunk (c_id conn) d]"
    by auto
  from stream_at_write [OF 2(2) assms(3)] obtain w3 where 3: "handle_write E conn w2 = Some w3"
    "stream_at w3 conn rid ref S_empty ''''" "w_calls w3 = w_calls w2" by blast
  from Cons.IH [OF 3(2)] 1 2 3 show ?case by auto
qed

subsection \<open>From the request to the first bytes\<close>

lemma response_op_header:
  "w_resp w ref = Some r \<Longrightarrow> response_op E ref (AHeaderSet n v) w =
    Some (set_resp ref (r\<lparr>ar_headers := headers_set n v (ar_headers r)\<rparr>) w, None)"
  by (simp add: response_op_def async_response_update_headers_def Let_def emit_def set_resp_def)

lemma response_ops_headers:
  assumes "w_resp w ref = Some r"
  shows "response_ops E ref (map (\<lambda>(n, v). AHeaderSet n v) hs) w =
    Some (set_resp ref (r\<lparr>ar_headers := fold (\<lambda>(n, v). headers_set n v) hs (ar_headers r)\<rparr>) w)"
  using assms
proof (induction hs arbitrary: w r)
  case Nil
  then show ?case by (simp add: set_resp_def fun_upd_idem)
next
  case (Cons h hs)
  obtain n v where h: "h = (n, v)" by fastforce
  let ?r = "r\<lparr>ar_headers := headers_set n v (ar_headers r)\<rparr>"
  have "w_resp (set_resp ref ?r w) ref = Some ?r" by (simp add: set_resp_def)
  from Cons.IH [OF this] show ?case
    by (simp add: h response_op_header [OF Cons.prems]) (simp add: set_resp_def)
qed

lemma response_ops_append:
  "response_ops E ref (as @ bs) w =
    (case response_ops E ref as w of None \<Rightarrow> None | Some w' \<Rightarrow> response_ops E ref bs w')"
  by (induction as arbitrary: w) (auto split: option.split)

text \<open>An asynchronous listener whose callback keeps the response for later.\<close>

lemma invoke_listener_deferred:
  assumes "context_of conn w = Some (k, ctx)" and "listener_is_async l"
    and "listener_invoke_async l E (request_new msg (rc_ip ctx) (rc_tls_cert ctx) groups) = []"
  shows "invoke_listener E conn msg groups l w = Some (fst (add_pending conn w))"
  using assms
  by (simp add: invoke_listener_def remote_context_get_remote_ip_def remote_context_get_tls_cert_info_def
      split_def Let_def)

lemma add_pending_parts:
  fixes conn :: mg_connection
  assumes "world_inv w"
  defines "w1 \<equiv> fst (add_pending conn w)"
  shows "world_inv w1" and "w_resp w1 = (w_resp w)(w_next w \<mapsto> async_response_new (c_id conn) (ep_request_counter (w_ep w)))"
    and "pend_find (pending_responses w1) (c_id conn) (ep_request_counter (w_ep w)) = Some (w_next w)"
    and "pending_streams w1 = pending_streams w" and "w_ctx w1 = w_ctx w" and "w_calls w1 = w_calls w"
    and "w_strm w1 = w_strm w" and "w_next w1 = Suc (w_next w)"
proof -
  have "good_step (c_id conn) w w1"
    unfolding w1_def by (rule add_pending_safe(1) [OF assms(1)]) (rule prod.collapse [symmetric])
  then show "world_inv w1" by (simp add: good_step_def)
  have "pending_responses w1 = pend_put (c_id conn) (ep_request_counter (w_ep w)) (w_next w) (pending_responses w)"
    by (simp add: w1_def add_pending_def Let_def set_resp_def)
  then show "pend_find (pending_responses w1) (c_id conn) (ep_request_counter (w_ep w)) = Some (w_next w)"
    using world_invD(1) [OF assms(1)] by (simp add: pend_find_put)
qed (simp_all add: w1_def add_pending_def Let_def set_resp_def)

text \<open>The wakeup that finds a streaming response registers the stream and sends the preamble.\<close>

lemma wakeup_starts_stream:
  assumes inv: "world_inv w" and p: "pend_find (pending_responses w) (c_id conn) rid = Some ref"
    and r: "w_resp w ref = Some r" "ar_state r = R_streaming" "ar_stream r = Some sref"
    and s: "w_strm w sref = Some \<lparr>as_conn = c_id conn, as_id = rid, as_data = data, as_state = S_start\<rparr>"
    and ns: "pend_find (pending_streams w) (c_id conn) rid = None"
    and ctx: "context_of conn w = Some (k, ctx)" "rc_stream ctx = None"
  shows "\<exists>w'. handle_wakeup conn (size_t_bytes rid) w = Some w' \<and> stream_at w' conn rid sref S_flush '''' \<and>
    w_calls w' = w_calls w @ [MgSend (c_id conn) data] \<and>
    w_resp w' = (w_resp w)(ref \<mapsto> r\<lparr>ar_stream := None\<rparr>) \<and>
    pend_find (pending_responses w') (c_id conn) rid = None \<and>
    (\<forall>i. i \<noteq> rid \<longrightarrow> pend_find (pending_responses w') (c_id conn) i = pend_find (pending_responses w) (c_id conn) i)"
proof -
  from pend_find_SomeD [OF p] obtain rs where rs: "um_find (=) (pending_responses w) (c_id conn) = Some rs"
    "um_find (=) rs rid = Some ref" by blast
  let ?ps = "pend_put (c_id conn) rid (Some sref) (pending_streams w)"
  let ?pr = "um_put (=) (c_id conn) (um_erase (=) rid rs) (pending_responses w)"
  let ?w1 = "set_pending_responses ?pr (set_pending_streams ?ps (set_resp ref (r\<lparr>ar_stream := None\<rparr>) w))"
  let ?s = "\<lparr>as_conn = c_id conn, as_id = rid, as_data = '''', as_state = S_flush\<rparr>"
  let ?w2 = "set_strm sref ?s (emit [MgSend (c_id conn) data] ?w1)"
  have found: "pend_find ?ps (c_id conn) rid = Some (Some sref)"
    using world_invD(2) [OF inv] by (simp add: pend_find_put)
  then obtain ss where ss: "um_find (=) ?ps (c_id conn) = Some ss" "um_find (=) ss rid = Some (Some sref)"
    by (auto dest: pend_find_SomeD)
  have "handle_stream conn (size_t_bytes rid) ?w1 = Some (True, ?w2)"
    using ss s
    by (simp add: handle_stream_def async_stream_get_state_def async_stream_get_data_def
        async_stream_mark_flush_def Let_def world_defs)
  then have run: "handle_wakeup conn (size_t_bytes rid) w = Some ?w2"
    using rs r
    by (simp add: handle_wakeup_def handle_stream_absent [OF ns] handle_response_def
        async_response_get_state_def async_response_get_stream_def Let_def)
  with handle_wakeup_safe [OF inv, of "size_t_bytes rid" rid conn] have "world_inv ?w2"
    by (auto simp: good_step_def)
  moreover have "w_ctx ?w2 = w_ctx w" by (simp add: world_defs)
  ultimately have "stream_at ?w2 conn rid sref S_flush ''''"
    using found ctx context_of_same [of ?w2 w conn] by (simp add: stream_at_def) (simp add: world_defs)
  moreover have "pend_find ?pr (c_id conn) rid = None"
    "i \<noteq> rid \<Longrightarrow> pend_find ?pr (c_id conn) i = pend_find (pending_responses w) (c_id conn) i" for i
    using world_invD(1) [OF inv] rs(1) um.lookup_erase [of rs]
    by (simp_all add: pend_find_put_conn pend_ok_def) (simp add: pend_find_def)
  ultimately show ?thesis using run by (auto simp: world_defs)
qed

subsection \<open>Properties\<close>

text \<open>
  The wakeup for an answered response sends exactly that answer, once, on its connection,
  marks the response completed and forgets it; no other request is touched.
\<close>
lemma answer_delivered_once:
  assumes "world_inv w" and "pend_find (pending_responses w) (c_id conn) rid = Some ref"
    and "w_resp w ref = Some r" and "ar_state r = R_sending"
    and "pend_find (pending_streams w) (c_id conn) rid = None"
  shows "\<exists>w'. handle_wakeup conn (size_t_bytes rid) w = Some w' \<and>
    w_calls w' = w_calls w @ [MgHttpReply (c_id conn) (pl_code (ar_payload r))
      (c_str (pl_headers (ar_payload r))) (pl_body (ar_payload r))] \<and>
    w_resp w' = (w_resp w)(ref \<mapsto> r\<lparr>ar_state := R_completed\<rparr>) \<and>
    (\<forall>c i. pend_find (pending_responses w') c i =
       (if c = c_id conn \<and> i = rid then None else pend_find (pending_responses w) c i)) \<and>
    pending_streams w' = pending_streams w"
  using handle_response_reply [OF assms(1-3) _ assms(5)] assms(4) by auto

lemma demo_world1_inv: "world_inv demo_world1"
  using sys_invD(1) [OF sys.reach_inv [OF demo_init demo_reach]] by (simp add: demo_sys1_def)

text \<open>
  C15. The whole life of an asynchronous answer: a request whose handler keeps the response,
  a worker that sets headers and sends, and the wakeup. The client gets exactly one reply with
  the worker's code, the headers it set and its body, and the request is forgotten.
\<close>
theorem async_answer_end_to_end:
  assumes "world_inv w" and "context_of conn w = Some (k, ctx)" and "listener_is_async l"
    and "listener_invoke_async l E (request_new msg (rc_ip ctx) (rc_tls_cert ctx) groups) = []"
    and "invoke_listener E conn msg groups l w = Some w1"
    and "env_open E'" and "response_ops E' (w_next w) (map (\<lambda>(n, v). AHeaderSet n v) hs @ [ASend code body]) w1 = Some w2"
    and "pend_find (pending_streams w) (c_id conn) (ep_request_counter (w_ep w)) = None"
  shows "\<exists>w3. handle_wakeup conn (size_t_bytes (ep_request_counter (w_ep w))) w2 = Some w3 \<and>
    net_calls (w_calls w3) = net_calls (w_calls w) @
      [MgHttpReply (c_id conn) code
        (c_str (headers_format False (fold (\<lambda>(n, v). headers_set n v) hs headers_new))) body] \<and>
    pend_find (pending_responses w3) (c_id conn) (ep_request_counter (w_ep w)) = None"
proof -
  let ?ref = "w_next w" and ?rid = "ep_request_counter (w_ep w)" and ?c = "c_id conn"
  let ?H = "fold (\<lambda>(n, v). headers_set n v) hs headers_new"
  have w1: "w1 = fst (add_pending conn w)"
    using assms(5) invoke_listener_deferred [OF assms(2-4)] by simp
  note A = add_pending_parts [OF assms(1), of conn, folded w1]
  let ?r = "(async_response_new ?c ?rid)\<lparr>ar_headers := ?H\<rparr>"
  let ?p = "\<lparr>pl_code = code, pl_headers = headers_format False ?H, pl_body = body\<rparr>"
  have "response_ops E' ?ref (map (\<lambda>(n, v). AHeaderSet n v) hs) w1 = Some (set_resp ?ref ?r w1)"
    using response_ops_headers [of w1 ?ref "async_response_new ?c ?rid" E' hs] A(2)
    by (simp add: async_response_new_def)
  moreover have "response_op E' ?ref (ASend code body) (set_resp ?ref ?r w1) =
      Some (emit [MgWakeup ?c (size_t_bytes ?rid)] (set_resp ?ref (?r\<lparr>ar_payload := ?p, ar_state := R_sending\<rparr>) w1), None)"
    using assms(6)
    by (simp add: response_op_def env_open_def async_response_send_def async_response_new_def Let_def set_resp_def emit_def)
  ultimately have w2: "w2 = emit [MgWakeup ?c (size_t_bytes ?rid)] (set_resp ?ref (?r\<lparr>ar_payload := ?p, ar_state := R_sending\<rparr>) w1)"
    using assms(7) by (simp add: response_ops_append)
  have "world_inv w2"
    using response_ops_inv [OF A(1), of ?ref E' "map (\<lambda>(n, v). AHeaderSet n v) hs @ [ASend code body]"]
      assms(7) A(2) by auto
  moreover have "pend_find (pending_responses w2) ?c ?rid = Some ?ref"
    using A(3) by (simp add: w2 world_defs)
  moreover have "w_resp w2 ?ref = Some (?r\<lparr>ar_payload := ?p, ar_state := R_sending\<rparr>)"
    by (simp add: w2 world_defs)
  moreover have "pend_find (pending_streams w2) ?c ?rid = None"
    using assms(8) A(4) by (simp add: w2 world_defs)
  ultimately obtain w3 where "handle_wakeup conn (size_t_bytes ?rid) w2 = Some w3"
    "w_calls w3 = w_calls w2 @ [MgHttpReply ?c code (c_str (headers_format False ?H)) body]"
    "\<forall>c i. pend_find (pending_responses w3) c i = (if c = ?c \<and> i = ?rid then None else pend_find (pending_responses w2) c i)"
    using handle_response_reply [of w2 conn ?rid ?ref "?r\<lparr>ar_payload := ?p, ar_state := R_sending\<rparr>"] by auto
  moreover have "w_calls w2 = w_calls w @ [MgWakeup ?c (size_t_bytes ?rid)]" using A(6) by (simp add: w2 world_defs)
  ultimately show ?thesis by auto
qed

definition demo_async :: "nat listener" where
  "demo_async = lambda_http_listener (AsyncCallback (\<lambda>E req. [])) 0"

lemma demo_async_invoke:
  "listener_is_async demo_async" "listener_invoke_async demo_async demo_env req = []"
  "context_of demo_conn demo_world1 = Some (0, remote_context_new demo_env 0 (demo_raw 2))"
  "invoke_listener demo_env demo_conn demo_message [mg_null] demo_async demo_world1 =
    Some (fst (add_pending demo_conn demo_world1))"
  "env_open demo_env" "pending_streams demo_world1 = []" "w_next demo_world1 = 1"
  "ep_request_counter (w_ep demo_world1) = 0" "w_calls demo_world1 = []"
proof -
  show 1: "listener_is_async demo_async" "listener_invoke_async demo_async demo_env req = []" for req
    by (simp_all add: demo_async_def listener_is_async_def listener_invoke_async_def lambda_http_listener_def)
  show 2: "context_of demo_conn demo_world1 = Some (0, remote_context_new demo_env 0 (demo_raw 2))"
    by (simp add: context_of_def demo_conn_def demo_world1_def)
  show "invoke_listener demo_env demo_conn demo_message [mg_null] demo_async demo_world1 =
    Some (fst (add_pending demo_conn demo_world1))"
    by (rule invoke_listener_deferred [OF 2 1])
  show "env_open demo_env" by (simp add: env_open_def demo_env_def)
qed (simp_all add: demo_defs)

theorem async_answer_end_to_end_witness:
  "\<exists>(w2 :: nat world) w3. handle_wakeup demo_conn (size_t_bytes 0) w2 = Some w3 \<and>
    net_calls (w_calls w3) = [MgHttpReply 2 200 (''A: b'' @ crlf) ''hi'']"
proof -
  note A = add_pending_parts [OF demo_world1_inv, of demo_conn]
  have "\<exists>w2. response_ops demo_env 1 [AHeaderSet ''A'' ''b'', ASend 200 ''hi''] (fst (add_pending demo_conn demo_world1)) = Some w2"
    using response_ops_inv [OF A(1), of 1 demo_env "[AHeaderSet ''A'' ''b'', ASend 200 ''hi'']"] A(2) demo_async_invoke(7) by auto
  then obtain w2 where w2: "response_ops demo_env 1 (map (\<lambda>(n, v). AHeaderSet n v) [(''A'', ''b'')] @ [ASend 200 ''hi''])
      (fst (add_pending demo_conn demo_world1)) = Some w2" by auto
  have "headers_format False (fold (\<lambda>(n, v). headers_set n v) [(''A'', ''b'')] headers_new) = ''A: b'' @ crlf"
    by (simp add: headers_format_def headers_set_def headers_new_def)
  then have "c_str (headers_format False (fold (\<lambda>(n, v). headers_set n v) [(''A'', ''b'')] headers_new)) = ''A: b'' @ crlf"
    by (simp add: c_str_def)
  moreover have "\<exists>w3. handle_wakeup demo_conn (size_t_bytes (ep_request_counter (w_ep demo_world1))) w2 = Some w3 \<and>
    net_calls (w_calls w3) = net_calls (w_calls demo_world1) @
      [MgHttpReply (c_id demo_conn) 200
        (c_str (headers_format False (fold (\<lambda>(n, v). headers_set n v) [(''A'', ''b'')] headers_new))) ''hi''] \<and>
    pend_find (pending_responses w3) (c_id demo_conn) (ep_request_counter (w_ep demo_world1)) = None"
    using w2 demo_async_invoke(6,7)
    by (intro async_answer_end_to_end [OF demo_world1_inv demo_async_invoke(3,1,2,4,5)]) simp_all
  moreover have "c_id demo_conn = 2" by (simp add: demo_conn_def demo_raw_def)
  ultimately show ?thesis using demo_async_invoke(8,9) by (elim exE) auto
qed

text \<open>
  C14. The whole life of an asynchronous stream whose producer waits before it sends: the client
  gets the status line with the headers, every chunk in order and the terminal chunk, and
  nothing else; the stream ends completed and is forgotten.
\<close>
theorem async_stream_end_to_end:
  assumes "world_inv w" and "context_of conn w = Some (k, ctx)" and "rc_stream ctx = None"
    and "listener_is_async l"
    and "listener_invoke_async l E (request_new msg (rc_ip ctx) (rc_tls_cert ctx) groups) = []"
    and "invoke_listener E conn msg groups l w = Some w1"
    and "env_open E'" and "c_send_len conn < env_io_size E'"
    and "response_op E' (w_next w) (AStream code encoding) w1 = Some (w2, res)"
    and "pend_find (pending_streams w) (c_id conn) (ep_request_counter (w_ep w)) = None"
  shows "\<exists>sref w3 w4 w5. res = Some sref \<and>
    handle_wakeup conn (size_t_bytes (ep_request_counter (w_ep w))) w2 = Some w3 \<and>
    handle_write E' conn w3 = Some w4 \<and>
    stream_chunks E' conn (ep_request_counter (w_ep w)) sref ds w4 = Some w5 \<and>
    net_calls (w_calls w5) = net_calls (w_calls w) @
      [MgSend (c_id conn) (format_preamble code (headers_format False
        (headers_set ''Transfer-Encoding'' encoding headers_new)))] @
      map (MgHttpWriteChunk (c_id conn)) ds @ [MgHttpWriteChunk (c_id conn) ''''] \<and>
    pend_find (pending_streams w5) (c_id conn) (ep_request_counter (w_ep w)) = None \<and>
    (\<exists>s. w_strm w5 sref = Some s \<and> as_state s = S_completed)"
proof -
  let ?ref = "w_next w" and ?rid = "ep_request_counter (w_ep w)" and ?c = "c_id conn"
  let ?H = "headers_set ''Transfer-Encoding'' encoding headers_new"
  let ?pre = "format_preamble code (headers_format False ?H)"
  have w1: "w1 = fst (add_pending conn w)"
    using assms(6) invoke_listener_deferred [OF assms(2,4,5)] by simp
  note A = add_pending_parts [OF assms(1), of conn, folded w1]
  let ?sref = "w_next w1"
  let ?r = "(async_response_new ?c ?rid)\<lparr>ar_headers := ?H, ar_stream := Some ?sref, ar_state := R_streaming\<rparr>"
  let ?s = "\<lparr>as_conn = ?c, as_id = ?rid, as_data = ?pre, as_state = S_start\<rparr>"
  have H: "headers_remove ''Content-Length'' headers_new = headers_new"
    by (simp add: headers_remove_def headers_new_def)
  have op: "response_op E' ?ref (AStream code encoding) w1 =
      Some (emit [MgWakeup ?c (size_t_bytes ?rid)] (set_strm ?sref ?s ((set_resp ?ref ?r w1)\<lparr>w_next := Suc ?sref\<rparr>)), Some ?sref)"
    using A(2) assms(7) H
    by (simp add: response_op_def env_open_def async_response_stream_def async_response_new_def
        async_stream_new_def Let_def set_resp_def)
  have "(w2, res) = (emit [MgWakeup ?c (size_t_bytes ?rid)] (set_strm ?sref ?s ((set_resp ?ref ?r w1)\<lparr>w_next := Suc ?sref\<rparr>)), Some ?sref)"
    by (rule option.inject [THEN iffD1, OF trans [OF assms(9) [symmetric] op]])
  then have w2: "w2 = emit [MgWakeup ?c (size_t_bytes ?rid)] (set_strm ?sref ?s ((set_resp ?ref ?r w1)\<lparr>w_next := Suc ?sref\<rparr>))"
    and res: "res = Some ?sref" by (simp_all only: prod.inject)
  have parts: "pending_responses w2 = pending_responses w1" "pending_streams w2 = pending_streams w"
    "w_resp w2 ?ref = Some ?r" "w_strm w2 ?sref = Some ?s" "w_ctx w2 = w_ctx w"
    "w_calls w2 = w_calls w @ [MgWakeup ?c (size_t_bytes ?rid)]"
    using A(4,5,6) by (simp_all add: w2 world_defs)
  have inv2: "world_inv w2" by (rule response_op_inv(1) [OF A(1) assms(9)])
  obtain w3 where 3: "handle_wakeup conn (size_t_bytes ?rid) w2 = Some w3" "stream_at w3 conn ?rid ?sref S_flush ''''"
    "w_calls w3 = w_calls w2 @ [MgSend ?c ?pre]"
    using wakeup_starts_stream [OF inv2, of conn ?rid ?ref ?r ?sref ?pre k ctx] A(3) parts assms(2,3,10)
      context_of_same [of w2 w conn]
    by auto
  from stream_at_write [OF 3(2) assms(8)] obtain w4 where 4: "handle_write E' conn w3 = Some w4"
    "stream_at w4 conn ?rid ?sref S_empty ''''" "w_calls w4 = w_calls w3" by blast
  from stream_chunks_calls [OF 4(2) assms(7,8)] obtain w5 where
    "stream_chunks E' conn ?rid ?sref ds w4 = Some w5"
    "net_calls (w_calls w5) = net_calls (w_calls w4) @ map (MgHttpWriteChunk ?c) ds @ [MgHttpWriteChunk ?c '''']"
    "pend_find (pending_streams w5) ?c ?rid = None" "\<exists>s. w_strm w5 ?sref = Some s \<and> as_state s = S_completed"
    by blast
  with 3 4 res parts(6) show ?thesis by auto
qed

theorem async_stream_end_to_end_witness:
  "\<exists>w3 w4 w5. handle_write demo_env demo_conn w3 = Some w4 \<and>
    stream_chunks demo_env demo_conn 0 2 [''one'', ''two''] w4 = Some w5 \<and>
    net_calls (w_calls w5) =
      [MgSend 2 (format_preamble 200 (headers_format False (headers_set ''Transfer-Encoding'' ''chunked'' headers_new))),
       MgHttpWriteChunk 2 ''one'', MgHttpWriteChunk 2 ''two'', MgHttpWriteChunk 2 '''']"
proof -
  note A = add_pending_parts [OF demo_world1_inv, of demo_conn]
  have ref: "w_resp (fst (add_pending demo_conn demo_world1)) 1 = Some (async_response_new 2 0)"
    using A(2) demo_async_invoke(7,8) by (simp add: demo_conn_def demo_raw_def)
  then obtain w2 res where "response_op demo_env 1 (AStream 200 ''chunked'') (fst (add_pending demo_conn demo_world1)) = Some (w2, res)"
    using response_op_total [OF ref] by blast
  moreover from this have "res = Some 2"
    using ref A(8) demo_async_invoke(5,7)
    by (auto simp: response_op_def env_open_def async_response_stream_def async_response_new_def Let_def)
  moreover have "c_send_len demo_conn < env_io_size demo_env" "rc_stream (remote_context_new demo_env 0 (demo_raw 2)) = None"
    by (simp_all add: demo_conn_def demo_raw_def demo_env_def remote_context_new_def)
  moreover have "pend_find (pending_streams demo_world1) (c_id demo_conn) (ep_request_counter (w_ep demo_world1)) = None"
    using demo_async_invoke(6) by simp
  moreover have "c_id demo_conn = 2" by (simp add: demo_conn_def demo_raw_def)
  ultimately show ?thesis
    using async_stream_end_to_end [OF demo_world1_inv demo_async_invoke(3) _ demo_async_invoke(1,2,4,5), of 200 "''chunked''" w2 res "[''one'', ''two'']"]
      demo_async_invoke(7-9)
    by fastforce
qed

text \<open>
  A wakeup for a request that is no longer pending writes two error replies into the
  connection: one from the lookup that failed and one from its caller.
\<close>
lemma stale_wakeup_replies_twice:
  assumes "pend_find (pending_streams w) (c_id conn) rid = None"
    and "pend_find (pending_responses w) (c_id conn) rid = None"
  shows "handle_wakeup conn (size_t_bytes rid) w =
    Some (emit (replicate 2 (MgHttpReply (c_id conn) 500 (''Content-Type: text/plain'' @ crlf)
      (''Internal Server Error'' @ [LF]))) w)"
  using stale_wakeup_eq [OF assms] by (simp add: internal_server_error_reply_def numeral_2_eq_2)

text \<open>
  C29. A producer that sends and closes without a \<open>wait\<close> in between loses the chunk, and the
  second wakeup, which finds the stream gone, puts two error replies behind the terminal chunk.
\<close>
theorem send_then_close_corrupts:
  assumes "stream_at w conn rid ref S_empty x" and "env_open E"
    and "pend_find (pending_responses w) (c_id conn) rid = None"
  shows "\<exists>w1 w2 w3 w4. stream_send_op E ref data w = Some w1 \<and> stream_close_op E ref w1 = Some w2 \<and>
    handle_wakeup conn (size_t_bytes rid) w2 = Some w3 \<and> handle_wakeup conn (size_t_bytes rid) w3 = Some w4 \<and>
    net_calls (w_calls w4) = net_calls (w_calls w) @
      [MgHttpWriteChunk (c_id conn) '''', internal_server_error_reply conn, internal_server_error_reply conn]"
proof -
  from stream_at_send [OF assms(1,2), of data] obtain w1 where 1: "stream_send_op E ref data w = Some w1"
    "stream_at w1 conn rid ref S_has_data data" "w_calls w1 = w_calls w @ [MgWakeup (c_id conn) (size_t_bytes rid)]"
    by blast
  have ep1: "w_ep w1 = w_ep w"
    using stream_send_op_inv [of w E ref data w1] 1(1) assms(1) by (simp add: stream_at_def)
  from stream_at_close [OF 1(2) assms(2)] obtain w2 where 2: "stream_close_op E ref w1 = Some w2"
    "stream_at w2 conn rid ref S_close ''''" "w_calls w2 = w_calls w1 @ [MgWakeup (c_id conn) (size_t_bytes rid)]"
    "pending_responses w2 = pending_responses w1" by blast
  from stream_at_wakeup_close [OF 2(2)] obtain w3 where 3: "handle_wakeup conn (size_t_bytes rid) w2 = Some w3"
    "w_calls w3 = w_calls w2 @ [MgHttpWriteChunk (c_id conn) '''']"
    "pend_find (pending_streams w3) (c_id conn) rid = None" "pending_responses w3 = pending_responses w2" by blast
  have "pend_find (pending_responses w3) (c_id conn) rid = None" using assms(3) 2(4) 3(4) ep1 by simp
  from stale_wakeup_eq [OF 3(3) this] 1 2 3 show ?thesis
    by (simp add: emit_def internal_server_error_reply_def)
qed

text \<open>A stream of the demonstration, ready for its next chunk.\<close>

lemma demo_stream:
  "\<exists>w :: nat world. stream_at w demo_conn 0 2 S_empty '''' \<and> (\<forall>i. pend_find (pending_responses w) 2 i = None)"
proof -
  note A = add_pending_parts [OF demo_world1_inv, of demo_conn] and D = demo_async_invoke
  let ?w1 = "fst (add_pending demo_conn demo_world1)"
  have id2: "c_id demo_conn = 2" by (simp add: demo_conn_def demo_raw_def)
  have ref: "w_resp ?w1 1 = Some (async_response_new 2 0)" using A(2) D(7,8) id2 by simp
  then obtain w2 res where op: "response_op demo_env 1 (AStream 200 ''chunked'') ?w1 = Some (w2, res)"
    using response_op_total by blast
  let ?pre = "format_preamble 200 (headers_format False (headers_set ''Transfer-Encoding'' ''chunked''
    (headers_remove ''Content-Length'' headers_new)))"
  let ?r = "(async_response_new 2 0)\<lparr>ar_headers := headers_set ''Transfer-Encoding'' ''chunked''
    (headers_remove ''Content-Length'' headers_new), ar_stream := Some 2, ar_state := R_streaming\<rparr>"
  let ?s = "\<lparr>as_conn = 2, as_id = 0, as_data = ?pre, as_state = S_start\<rparr>"
  have "response_op demo_env 1 (AStream 200 ''chunked'') ?w1 =
      Some (emit [MgWakeup 2 (size_t_bytes 0)] (set_strm 2 ?s ((set_resp 1 ?r ?w1)\<lparr>w_next := 3\<rparr>)), Some 2)"
    using ref A(8) D(5,7)
    by (simp add: response_op_def env_open_def async_response_stream_def async_response_new_def
        async_stream_new_def Let_def set_resp_def numeral_2_eq_2 numeral_3_eq_3)
  from option.inject [THEN iffD1, OF trans [OF op [symmetric] this]]
  have "w2 = emit [MgWakeup 2 (size_t_bytes 0)] (set_strm 2 ?s ((set_resp 1 ?r ?w1)\<lparr>w_next := 3\<rparr>))"
    by (simp only: prod.inject)
  then have parts: "pending_responses w2 = pending_responses ?w1" "pending_streams w2 = []" "w_ctx w2 = w_ctx demo_world1"
    "w_resp w2 1 = Some ?r" "w_strm w2 2 = Some ?s"
    using A(4,5) D(6) by (simp_all add: world_defs)
  have "world_inv w2" by (rule response_op_inv(1) [OF A(1) op])
  moreover have "context_of demo_conn w2 = Some (0, remote_context_new demo_env 0 (demo_raw 2))"
    using D(3) context_of_same [OF parts(3)] by simp
  moreover have "pend_find (pending_responses w2) (c_id demo_conn) 0 = Some 1"
    using A(3) parts(1) D(7,8) by simp
  ultimately obtain w3 :: "nat world" where 3: "stream_at w3 demo_conn 0 2 S_flush ''''" "pend_find (pending_responses w3) 2 0 = None"
      "\<forall>i. i \<noteq> 0 \<longrightarrow> pend_find (pending_responses w3) 2 i = pend_find (pending_responses ?w1) 2 i"
    using wakeup_starts_stream [of w2 demo_conn 0 1 ?r 2 ?pre 0 "remote_context_new demo_env 0 (demo_raw 2)"] parts id2
    by (auto simp: remote_context_new_def)
  moreover have "pend_find (pending_responses ?w1) 2 i = None" if "i \<noteq> 0" for i
    using that by (simp add: add_pending_def pend_put_def pend_find_def Let_def set_resp_def demo_defs)
  ultimately have 3: "stream_at w3 demo_conn 0 2 S_flush ''''" "\<forall>i. pend_find (pending_responses w3) 2 i = None"
    by metis+
  have "c_send_len demo_conn < env_io_size demo_env" by (simp add: demo_conn_def demo_raw_def demo_env_def)
  from stream_at_write [OF 3(1) this] 3(2) show ?thesis by auto
qed

theorem send_then_close_corrupts_witness:
  "\<exists>(w :: nat world) w1 w2 w3 w4. stream_send_op demo_env 2 ''last'' w = Some w1 \<and> stream_close_op demo_env 2 w1 = Some w2 \<and>
    handle_wakeup demo_conn (size_t_bytes 0) w2 = Some w3 \<and> handle_wakeup demo_conn (size_t_bytes 0) w3 = Some w4 \<and>
    net_calls (w_calls w4) = net_calls (w_calls w) @
      [MgHttpWriteChunk 2 '''', internal_server_error_reply demo_conn, internal_server_error_reply demo_conn]"
proof -
  from demo_stream obtain w :: "nat world" where w: "stream_at w demo_conn 0 2 S_empty ''''"
    "pend_find (pending_responses w) (c_id demo_conn) 0 = None"
    by (auto simp: demo_conn_def demo_raw_def)
  have "c_id demo_conn = 2" by (simp add: demo_conn_def demo_raw_def)
  from send_then_close_corrupts [OF w(1) demo_async_invoke(5) w(2), of "''last''", unfolded this] show ?thesis
    by (rule exI [of _ w])
qed

text \<open>
  C23. \<open>wait\<close> returns exactly when some read finds the stream empty, failed or completed, and
  says whether the first such read found it empty.
\<close>
theorem wait_returns_iff:
  "async_stream_wait obs i = Some b \<longleftrightarrow>
    (\<exists>n. wait_done (obs (i + n)) \<and> (\<forall>j < n. \<not> wait_done (obs (i + j))) \<and> b = (obs (i + n) = S_empty))"
proof
  assume L: "async_stream_wait obs i = Some b"
  from async_stream_wait_done [OF L] have "\<exists>n. wait_done (obs (i + n))" by (metis le_Suc_ex)
  then obtain n where n: "wait_done (obs (i + n))" "\<forall>j < n. \<not> wait_done (obs (i + j))"
    using exists_least_iff [of "\<lambda>n. wait_done (obs (i + n))"] by blast
  with async_stream_wait_after [OF n(2,1)] L
  show "\<exists>n. wait_done (obs (i + n)) \<and> (\<forall>j < n. \<not> wait_done (obs (i + j))) \<and> b = (obs (i + n) = S_empty)" by auto
next
  assume "\<exists>n. wait_done (obs (i + n)) \<and> (\<forall>j < n. \<not> wait_done (obs (i + j))) \<and> b = (obs (i + n) = S_empty)"
  then show "async_stream_wait obs i = Some b" using async_stream_wait_after by blast
qed

theorem wait_returns_iff_witness:
  "async_stream_wait (\<lambda>i. if i < 3 then S_flush else S_empty) 0 = Some True"
  by (subst wait_returns_iff) (rule exI [of _ 3], simp add: wait_done_def)

text \<open>
  A stream marked failed by the close of its connection forgets the failure when its
  producer sends or closes once more: \<open>failed\<close> is false again, and as no event will reach
  the closed connection any more, the next \<open>wait\<close> never returns.
\<close>
lemma failure_is_overwritten:
  assumes "as_state s = S_failed" and "env_open E"
  shows "async_stream_failed s \<and>
    \<not> async_stream_failed (fst (async_stream_send E body s)) \<and>
    \<not> async_stream_failed (fst (async_stream_close E s)) \<and>
    async_stream_wait (\<lambda>_. as_state s) 0 = Some False \<and>
    async_stream_wait (\<lambda>_. as_state (fst (async_stream_send E body s))) 0 = None \<and>
    async_stream_wait (\<lambda>_. as_state (fst (async_stream_close E s))) 0 = None"
proof -
  have states: "as_state (fst (async_stream_send E body s)) = S_has_data" "as_state (fst (async_stream_close E s)) = S_close"
    using assms(2) by (simp_all add: async_stream_send_def async_stream_close_def env_open_def Let_def)
  have "async_stream_wait (\<lambda>_. st) 0 = None" if "\<not> wait_done st" for st
    using async_stream_wait_done [of "\<lambda>_. st" 0] that by (cases "async_stream_wait (\<lambda>_. st) 0") auto
  then show ?thesis
    using assms(1) states by (simp add: async_stream_failed_def wait_done_def async_stream_wait_stop)
qed

end
