(* ===== verification/Event_Properties.thy ===== *)
theory Event_Properties
  imports Async_Flow
begin

text \<open>Polls and writes: failed responses, backpressure and synchronous streams.\<close>

subsection \<open>Polls\<close>

lemma um_find_filter_val:
  assumes "um_ok (=) m"
  shows "um_find (=) (filter (\<lambda>e. P (snd e)) m) k =
    (case um_find (=) m k of None \<Rightarrow> None | Some v \<Rightarrow> if P v then Some v else None)"
  using assms
proof (induction m)
  case Nil
  then show ?case by simp
next
  case (Cons e m)
  have "fst e = k \<Longrightarrow> um_find (=) m k = None"
    using Cons.prems um_find_Some_in [of "(=)" m k] by (cases "um_find (=) m k") fastforce+
  with Cons show ?case by (cases e) (auto split: option.split)
qed

subsection \<open>Writes, one after the other\<close>

lemma pump_run_add:
  "pump_run E conn (m + n) ctx =
    (let (ctx1, calls1) = pump_run E conn m ctx; (ctx2, calls2) = pump_run E conn n ctx1
     in (ctx2, calls1 @ calls2))"
  by (induction m arbitrary: ctx) (simp_all add: split_def Let_def)

subsection \<open>Properties\<close>

text \<open>
  A poll sends one error reply for each response of the connection that has failed and
  forgets exactly those.
\<close>
lemma poll_flushes_failures:
  assumes "world_inv w"
  shows "\<exists>w'. handle_poll conn w = Some w' \<and>
    w_calls w' = w_calls w @ replicate
      (case um_find (=) (pending_responses w) (c_id conn) of
         None \<Rightarrow> 0 | Some rs \<Rightarrow> length (filter (\<lambda>e. ref_failed (w_resp w) (snd e)) rs))
      (internal_server_error_reply conn) \<and>
    (\<forall>c i. pend_find (pending_responses w') c i =
      (case pend_find (pending_responses w) c i of
         None \<Rightarrow> None
       | Some ref \<Rightarrow> if c = c_id conn \<and> ref_failed (w_resp w) ref then None else Some ref)) \<and>
    w_resp w' = w_resp w \<and> pending_streams w' = pending_streams w"
proof (cases "um_find (=) (pending_responses w) (c_id conn)")
  case None
  then have "c = c_id conn \<Longrightarrow> pend_find (pending_responses w) c i = None" for c i by (simp add: pend_find_def)
  with None show ?thesis by (auto simp: handle_poll_def split: option.split)
next
  case (Some rs)
  note pok = world_invD(1) [OF assms]
  have rsok: "um_ok (=) rs" using pok Some by (simp add: pend_ok_def)
  let ?rest = "filter (\<lambda>e. \<not> ref_failed (w_resp w) (snd e)) rs"
  have "\<forall>e \<in> set rs. w_resp w (snd e) \<noteq> None" using responses_live(2) [OF assms Some] by blast
  note P = poll_loop_eq [OF this, of conn]
  have "pend_find (um_put (=) (c_id conn) ?rest (pending_responses w)) c i =
      (case pend_find (pending_responses w) c i of None \<Rightarrow> None
       | Some ref \<Rightarrow> if c = c_id conn \<and> ref_failed (w_resp w) ref then None else Some ref)" for c i
  proof (cases "c = c_id conn")
    case True
    then have "pend_find (pending_responses w) c i = um_find (=) rs i" using Some by (simp add: pend_find_def)
    with True show ?thesis
      using um_find_filter_val [OF rsok, of "\<lambda>x. \<not> ref_failed (w_resp w) x" i]
      by (simp add: pend_find_put_conn [OF pok] split: option.split)
  next
    case False
    then show ?thesis by (simp add: pend_find_put_conn [OF pok] split: option.split)
  qed
  with Some P show ?thesis by (simp add: handle_poll_def world_defs)
qed

text \<open>
  A write on a connection whose buffer is still full changes nothing: neither a
  synchronous producer is asked nor any stream let go on.
\<close>
lemma full_buffer_holds_back:
  assumes "world_inv w" and "context_of conn w = Some (k, ctx)" and "env_io_size E \<le> c_send_len conn"
  shows "handle_write E conn w = Some w"
proof -
  have "pump_stream E conn ctx = (ctx, [])" using assms(3) by (simp add: pump_stream_def split: option.split)
  moreover have "map_option (pump_async_stream E conn) x = x" for x
    using assms(3) by (cases x) (simp_all add: pump_async_stream_def)
  moreover have "set_ctx k ctx w = w" using context_of_ctx [OF assms(2)] by (simp add: set_ctx_def fun_upd_idem)
  ultimately show ?thesis
    by (simp add: handle_write_eq [OF assms(1,2)] emit_def cong: if_cong)
qed



text \<open>
  C19. A synchronous stream: once the handler has started one, write events on a connection
  with room send each chunk the producer yields, in order, then the terminal chunk, and no
  more; the producer is asked exactly once per event.
\<close>
theorem sync_stream_end_to_end:
  assumes "c_send_len conn < env_io_size E" and "produced E n p = Some ds"
  shows "let ((r, ctx'), calls) = response_stream code encoding p (response_new conn, ctx) in
    calls @ snd (pump_run E conn (n + extra) ctx') =
      [MgSend (c_id conn) (format_preamble code (headers_format False
        (headers_set ''Transfer-Encoding'' encoding (headers_remove ''Content-Length'' headers_new))))] @
      map (MgHttpWriteChunk (c_id conn)) ds @ [MgHttpWriteChunk (c_id conn) ''''] \<and>
    rc_stream (fst (pump_run E conn (n + extra) ctx')) = None"
proof -
  let ?ctx = "set_stream p ctx"
  note P = pump_run_produced [OF assms, of ?ctx]
  have "pump_run E conn (n + extra) ?ctx = (fst (pump_run E conn n ?ctx), snd (pump_run E conn n ?ctx))"
    using P by (simp add: pump_run_add pump_run_idle set_stream_def split_def Let_def)
  then show ?thesis
    using P by (simp add: response_stream_def response_new_def set_stream_def Let_def)
qed

theorem sync_stream_end_to_end_witness:
  "\<exists>ctx' calls. fst (response_stream 200 ''chunked'' 2 (response_new demo_conn, remote_context_new demo_env 0 demo_conn)) = ctx' \<and>
    snd (pump_run demo_env demo_conn (3 + 4) (snd ctx')) = calls \<and>
    calls = [MgHttpWriteChunk 2 ''data'', MgHttpWriteChunk 2 ''data'', MgHttpWriteChunk 2 '''']"
proof -
  have "produced demo_env 3 2 = Some [''data'', ''data'']" by (simp add: numeral_3_eq_3 demo_env_def)
  from sync_stream_end_to_end [OF _ this, of demo_conn 200 "''chunked''" "remote_context_new demo_env 0 demo_conn" 4]
  show ?thesis
    by (simp add: split_def Let_def response_stream_def response_new_def demo_conn_def demo_raw_def demo_env_def)
qed

end
