(* ===== verification/Component_Properties.thy ===== *)
theory Component_Properties
  imports Examples
begin

text \<open>What the parts promise on their own: headers, requests, certificates, TLS material, logs.\<close>

subsection \<open>Headers\<close>

text \<open>
  C31. The headers are a dictionary whose keys ignore the case of ASCII letters: lookups after
  \<open>set\<close>, \<open>remove\<close> and \<open>clear\<close>, the size, and the well-formedness every operation keeps.
\<close>
theorem headers_case_insensitive_map:
  assumes "headers_ok h"
  shows "headers_get n (headers_set m v h) = (if map tolower n = map tolower m then Some v else headers_get n h) \<and>
    headers_get n (headers_remove m h) = (if map tolower n = map tolower m then None else headers_get n h) \<and>
    headers_get n (headers_clear h) = None \<and>
    (headers_has n h \<longleftrightarrow> headers_get n h \<noteq> None) \<and> headers_get_view n h = headers_get n h \<and>
    headers_size (headers_set m v h) = (if headers_has m h then headers_size h else Suc (headers_size h)) \<and>
    headers_size (headers_remove m h) = (if headers_has m h then headers_size h - 1 else headers_size h) \<and>
    headers_ok (headers_set m v h) \<and> headers_ok (headers_remove m h)"
proof -
  have has: "headers_has k h \<longleftrightarrow> headers_get k h \<noteq> None" for k by (simp add: headers_has_def headers_get_eq)
  have view: "headers_get_view n h = headers_get n h" by (simp add: headers_get_view_def headers_get_def)
  have clear: "headers_get n (headers_clear h) = None" by (simp add: headers_get_eq headers_clear_def)
  have eq: "is_equal m n \<longleftrightarrow> map tolower n = map tolower m" by (auto simp: is_equal_iff)
  show ?thesis
    using hdr.lookup_put [OF assms, where k = m and v = v and k' = n] hdr.lookup_erase [OF assms, where k = m and k' = n]
      hdr.ok_put [OF assms, of m v] hdr.ok_erase [OF assms, of m]
      hdr.count_put [OF assms, of m v] hdr.count_erase [OF assms, of m]
    by (simp add: eq has view clear)
qed

theorem headers_case_insensitive_map_witness:
  "headers_get ''content-TYPE'' (headers_set ''Content-Type'' ''text/html'' (headers_set ''A'' ''1'' headers_new)) = Some ''text/html''"
proof -
  have "headers_ok (headers_set ''A'' ''1'' headers_new)" by (simp add: headers_ok_def headers_set_def headers_new_def)
  from headers_case_insensitive_map [OF this, of "''content-TYPE''" "''Content-Type''" "''text/html''"]
  have "headers_get ''content-TYPE'' (headers_set ''Content-Type'' ''text/html'' (headers_set ''A'' ''1'' headers_new)) =
    (if map tolower ''content-TYPE'' = map tolower ''Content-Type'' then Some ''text/html''
     else headers_get ''content-TYPE'' (headers_set ''A'' ''1'' headers_new))" by blast
  moreover have "map tolower ''content-TYPE'' = map tolower ''Content-Type''" by code_simp
  ultimately show ?thesis by simp
qed

text \<open>
  C32. The custom hash agrees with the custom equality, so that looking only into the bucket of a
  key, with any number of buckets, finds what a search of the whole map finds.
\<close>
theorem hash_respects_equality:
  "(is_equal a b \<longrightarrow> hash_key a = hash_key b) \<and> equivp is_equal \<and>
   um_bucket_find is_equal hash_key n (h_map h) k = headers_get k h"
  using hash_key_cong um_bucket_find_eq [of is_equal hash_key n "h_map h" k] equivp_is_equal
  by (simp add: headers_get_eq hash_key_cong)

theorem hash_respects_equality_witness: "hash_key ''ETag'' = hash_key ''etag''"
proof -
  have "is_equal ''ETag'' ''etag''" by code_simp
  with hash_respects_equality [of "''ETag''" "''etag''"] show ?thesis by blast
qed

text \<open>
  C33. The header block can be read back: as long as no name holds a colon or a carriage return
  and no value a carriage return, splitting the block into lines gives exactly the entries,
  in order; an empty set of headers becomes the default content type unless it may stay empty.
\<close>
theorem header_block_roundtrip:
  assumes "list_all plain_header (h_map h)"
  shows "parse_headers (headers_format allow_empty h) =
    (if h_map h = [] \<and> \<not> allow_empty then [(''Content-Type'', ''text/plain'')] else h_map h)"
proof (cases "h_map h = [] \<and> \<not> allow_empty")
  case True
  have "parse_headers (concat (map header_line [(''Content-Type'', ''text/plain'')])) = [(''Content-Type'', ''text/plain'')]"
    by (rule parse_header_lines) (simp add: plain_header_def)
  moreover have "headers_format allow_empty h = concat (map header_line [(''Content-Type'', ''text/plain'')])"
    using True by (simp add: headers_format_eq header_line_def)
  ultimately show ?thesis using True by (simp only: if_True simp_thms)
next
  case False
  then have "headers_format allow_empty h = concat (map header_line (h_map h))" by (auto simp: headers_format_eq)
  with False show ?thesis using parse_header_lines [OF assms] by (simp only: if_False)
qed

theorem header_block_roundtrip_witness:
  "parse_headers (headers_format False (headers_set ''B'' ''x: y'' (headers_set ''A'' '''' headers_new))) =
    [(''A'', ''''), (''B'', ''x: y'')]"
proof -
  have "h_map (headers_set ''B'' ''x: y'' (headers_set ''A'' '''' headers_new)) = [(''A'', ''''), (''B'', ''x: y'')]"
    by code_simp
  then show ?thesis
    using header_block_roundtrip [of "headers_set ''B'' ''x: y'' (headers_set ''A'' '''' headers_new)" False]
    by (simp add: plain_header_def)
qed

text \<open>
  Of all the codes the library names, exactly four have no reason phrase: its two markers,
  and the codes 103 and 425 its table lacks; every real code is a number from 100 to 1023.
\<close>
lemma status_phrases:
  "(format_status_code (status_int s) = '''' \<longleftrightarrow> s \<in> {SC_invalid, SC_max, SC_early_hints, SC_too_early}) \<and>
   (s = SC_invalid \<or> 100 \<le> status_int s \<and> status_int s \<le> 1023)"
  using format_status_code_phrase [of s] status_int_range [of s] by auto

subsection \<open>Requests\<close>

text \<open>The views of a message into its buffer.\<close>

definition message_ok :: "mg_http_message \<Rightarrow> mg_str list \<Rightarrow> bool" where
  "message_ok msg groups \<longleftrightarrow>
     list_all (inside (hm_message msg))
       ([hm_method msg, hm_uri msg, hm_query msg, hm_proto msg, hm_body msg] @ groups @
        map fst (hm_headers msg) @ map snd (hm_headers msg))"


definition demo_request :: request where
  "demo_request = request_new (demo_message\<lparr>hm_message := \<lparr>ms_buf = 100, ms_len = 8\<rparr>,
     hm_method := \<lparr>ms_buf = 100, ms_len = 3\<rparr>, hm_uri := \<lparr>ms_buf = 104, ms_len = 2\<rparr>\<rparr>) ''ip'' None [\<lparr>ms_buf = 105, ms_len = 1\<rparr>]"




subsection \<open>Certificates\<close>

text \<open>
  The views of a peer certificate never overlap and cover its buffer: each field reads back
  as what the TLS library printed, and the fields in order are the buffer. With OpenSSL there
  is a record exactly when there is a session with a peer certificate and memory for it.
\<close>
theorem cert_views_partition_buffer:
  "(tls_setup E (TlsOpenSSL ssl bio_ok) = None \<longleftrightarrow> ssl = None \<or> ssl = Some None \<or> \<not> bio_ok) \<and>
   (\<forall>cert info. tls_setup E (TlsOpenSSL (Some (Some cert)) True) = Some info \<longrightarrow>
      get_subject_name info = x_subject cert \<and> get_issuer_name info = x_issuer cert \<and>
      get_serial_number info = x_serial_hex cert \<and>
      get_not_before info = (case x_not_before cert of None \<Rightarrow> '''' | Some t \<Rightarrow> fmt_int t) \<and>
      get_not_after info = (case x_not_after cert of None \<Rightarrow> '''' | Some t \<Rightarrow> fmt_int t) \<and>
      tc_buffer info = get_subject_name info @ get_issuer_name info @ get_serial_number info @
        get_not_before info @ get_not_after info @ get_fingerprint info)"
  by (auto simp: tls_setup_def setup_openssl_def openssl_time_def Let_def split: option.splits)

theorem cert_views_partition_buffer_witness:
  "get_issuer_name (the (tls_setup demo_env (TlsOpenSSL (Some (Some \<lparr>x_subject = ''CN=a'', x_issuer = ''CN=ca'',
     x_not_before = Some 5, x_not_after = None, x_serial_hex = ''0A'', x_sha256 = [1, 2]\<rparr>)) True))) = ''CN=ca''"
proof -
  let ?cert = "\<lparr>x_subject = ''CN=a'', x_issuer = ''CN=ca'', x_not_before = Some 5, x_not_after = None,
    x_serial_hex = ''0A'', x_sha256 = [1, 2]\<rparr>"
  obtain info where "tls_setup demo_env (TlsOpenSSL (Some (Some ?cert)) True) = Some info"
    using cert_views_partition_buffer [of demo_env "Some (Some ?cert)" True] by fastforce
  moreover from this have "get_issuer_name info = x_issuer ?cert"
    using cert_views_partition_buffer [of demo_env None True] by blast
  ultimately show ?thesis by simp
qed

text \<open>
  C37. The fingerprint names the digest: reading the pairs of digits back gives its bytes, it has
  \<open>3 n - 1\<close> characters, and both TLS backends print it alike.
\<close>
theorem fingerprint_roundtrip:
  "parse_fingerprint (fingerprint_loop hash (length hash) 0 '''') = hash \<and>
   length (fingerprint_loop hash (length hash) 0 '''') = 3 * length hash - 1 \<and>
   mbed_fingerprint (Some hash) = Some (fingerprint_loop hash (length hash) 0 '''')"
proof -
  have "length (colon_join (map fmt_hex2 hash)) = 3 * length hash - 1"
    using length_colon_join [of hash] by (cases "hash = []") simp_all
  then show ?thesis by (simp only: fingerprint_loop_eq parse_fingerprint_join mbed_fingerprint_def option.case)
qed


definition demo_time :: mbed_time where
  "demo_time = \<lparr>mt_year = 2026, mt_mon = 5, mt_day = 1, mt_hour = 0, mt_min = 0, mt_sec = 9\<rparr>"


subsection \<open>TLS material\<close>

text \<open>
  C39. An endpoint that is only ever given strings to copy is destroyed without freeing anything
  but live blocks, each at most once, whatever the allocator answers; one that is only given
  views is destroyed without touching memory.
\<close>
theorem owned_material_freed_safely:
  assumes "strdup_spec dup" and "h 0 = None"
  shows "(list_all owning ops \<longrightarrow>
      (\<exists>t h'. endpoint_destroy (fold (tls_do dup) ops (tls_material_new, h)) = Some (t, h') \<and> \<not> tl_alloc t)) \<and>
    (list_all (\<lambda>op. \<not> owning op) ops \<longrightarrow>
      endpoint_destroy (fold (tls_do dup) ops (tls_material_new, h)) =
        Some (fold (tls_do dup) ops (tls_material_new, h)) \<and>
      snd (fold (tls_do dup) ops (tls_material_new, h)) = h)"
proof (intro conjI impI)
  assume "list_all owning ops"
  from owns_all_ops [OF assms(1) this owns_all_new [of h]] assms(2)
  show "\<exists>t h'. endpoint_destroy (fold (tls_do dup) ops (tls_material_new, h)) = Some (t, h') \<and> \<not> tl_alloc t"
    using endpoint_destroy_owned [of "fst (fold (tls_do dup) ops (tls_material_new, h))" "snd (fold (tls_do dup) ops (tls_material_new, h))"]
    by auto
next
  assume views: "list_all (\<lambda>op. \<not> owning op) ops"
  have "\<not> tl_alloc (fst (fold (tls_do dup) ops th)) \<and> snd (fold (tls_do dup) ops th) = snd th" if "\<not> tl_alloc (fst th)" for th
    using views that
  proof (induction ops arbitrary: th)
    case Nil
    then show ?case by simp
  next
    case (Cons op ops)
    then show ?case by (cases op) (auto simp: use_tls_view_def use_mtls_view_def)
  qed
  from this [of "(tls_material_new, h)"]
  have "\<not> tl_alloc (fst (fold (tls_do dup) ops (tls_material_new, h)))" "snd (fold (tls_do dup) ops (tls_material_new, h)) = h"
    by (simp_all add: tls_material_new_def)
  then show "endpoint_destroy (fold (tls_do dup) ops (tls_material_new, h)) = Some (fold (tls_do dup) ops (tls_material_new, h))"
    "snd (fold (tls_do dup) ops (tls_material_new, h)) = h"
    by (cases "fold (tls_do dup) ops (tls_material_new, h)"; simp add: endpoint_destroy_def)+
qed

text \<open>An allocator with room for two blocks.\<close>

definition demo_dup :: strdup where
  "demo_dup h s = (if s = '''' then (mg_null, h)
     else if h 10 = None then (\<lparr>ms_buf = 10, ms_len = of_nat (length s)\<rparr>, h(10 \<mapsto> s))
     else if h 20 = None then (\<lparr>ms_buf = 20, ms_len = of_nat (length s)\<rparr>, h(20 \<mapsto> s))
     else (mg_null, h))"

lemma demo_dup_spec: "strdup_spec demo_dup"
  by (auto simp: strdup_spec_def demo_dup_def)

theorem owned_material_freed_safely_witness:
  "\<exists>t h'. endpoint_destroy (fold (tls_do demo_dup) [OwnTls ''cert'' ''key''] (tls_material_new, Map.empty)) = Some (t, h') \<and> \<not> tl_alloc t"
  using owned_material_freed_safely [OF demo_dup_spec, of Map.empty "[OwnTls ''cert'' ''key'']"] by simp

text \<open>
  Giving copies and then views makes the destructor free memory the endpoint does not own,
  and giving copies twice never frees the first ones.
\<close>
lemma mixed_material_misfreed:
  "\<exists>dup h. strdup_spec dup \<and> h 0 = None \<and>
    endpoint_destroy (fold (tls_do dup) [OwnTls ''cert'' ''key'', ViewTls \<lparr>ms_buf = 77, ms_len = 4\<rparr> \<lparr>ms_buf = 88, ms_len = 3\<rparr>] (tls_material_new, h)) = None \<and>
    (\<exists>t h'. endpoint_destroy (fold (tls_do dup) [OwnTls ''c'' '''', OwnTls ''d'' ''''] (tls_material_new, h)) = Some (t, h') \<and> h' \<noteq> h)"
proof (intro exI [of _ demo_dup] exI [of _ Map.empty] conjI)
  show "strdup_spec demo_dup" by (rule demo_dup_spec)
  show "endpoint_destroy (fold (tls_do demo_dup) [OwnTls ''cert'' ''key'', ViewTls \<lparr>ms_buf = 77, ms_len = 4\<rparr> \<lparr>ms_buf = 88, ms_len = 3\<rparr>]
      (tls_material_new, Map.empty)) = None"
    by (simp add: use_tls_owned_def use_tls_view_def demo_dup_def endpoint_destroy_def is_mtls_def
        tls_material_new_def mg_null_def heap_free_def)
  have "endpoint_destroy (fold (tls_do demo_dup) [OwnTls ''c'' '''', OwnTls ''d'' ''''] (tls_material_new, Map.empty)) =
      Some (\<lparr>tl_ca = mg_null, tl_cert = \<lparr>ms_buf = 20, ms_len = 1\<rparr>, tl_key = mg_null, tl_alloc = False\<rparr>, [10 \<mapsto> ''c''])"
    by (simp add: use_tls_owned_def demo_dup_def endpoint_destroy_def is_mtls_def
        tls_material_new_def mg_null_def heap_free_def fun_upd_twist fun_eq_iff)
  then show "\<exists>t h'. endpoint_destroy (fold (tls_do demo_dup) [OwnTls ''c'' '''', OwnTls ''d'' ''''] (tls_material_new, Map.empty)) = Some (t, h') \<and> h' \<noteq> Map.empty"
    by auto
qed (simp add: fun_eq_iff)

subsection \<open>Logs\<close>

text \<open>
  C40. A logger with a buffer loses and invents nothing: for any text it never leaves its buffer,
  what it passes to the listener followed by what it still holds is the text, every call gives
  between 1 and \<open>n\<close> characters with a newline only at the end, and it holds less than \<open>n\<close>.
\<close>
theorem logger_delivers_everything:
  assumes "0 < n" and "n < 2 ^ 64"
  shows "\<exists>l out. log_string s (sv_logger (fst (server_new_logger level (of_nat n) wakeup) :: 'p server)) = Some (l, out) \<and>
    concat out @ logger_pending l = s \<and> list_all (log_line_ok n) out \<and> length (logger_pending l) < n"
proof -
  let ?l = "sv_logger (fst (server_new_logger level (of_nat n) wakeup) :: 'p server)"
  have u: "unat (of_nat n :: u64) = n" using assms(2) by (simp add: unat_of_nat)
  have buf: "lg_buffer ?l = replicate n NUL" and off: "lg_offset ?l = 0" and lis: "lg_listener ?l"
    using u by (simp_all add: server_new_logger_def register_logger_def server_blank_def logger_new_def
        server_start_def split_def Let_def)
  have ready: "logger_ready ?l" using assms buf off lis by (simp add: logger_ready_def)
  have pend: "logger_pending ?l = []" using off by (simp add: logger_pending_def)
  from log_string_eq_cut [OF ready, of s] obtain l where
    "log_string s ?l = Some (l, fst (cut_log n [] s))" "logger_pending l = snd (cut_log n [] s)"
    by (auto simp: pend buf)
  then show ?thesis
    using cut_log_concat [of n "[]" s] cut_log_lines [of "[]" n s] assms(1) by auto
qed

theorem logger_delivers_everything_witness:
  "\<exists>l out. log_string ''abcde'' (sv_logger (fst (server_new_logger 4 3 True) :: nat server)) = Some (l, out) \<and>
    concat out @ logger_pending l = ''abcde'' \<and> list_all (log_line_ok 3) out \<and> length (logger_pending l) < 3"
  using logger_delivers_everything [of 3 "''abcde''" 4 True] by simp

text \<open>A logger of size 0 writes past its buffer at the first character.\<close>

lemma logger_size_zero_overruns:
  "event_manager_logger ch (sv_logger (fst (server_new_logger level 0 wakeup) :: 'p server)) = None"
  by (simp add: server_new_logger_def register_logger_def server_blank_def logger_new_def
      server_start_def event_manager_logger_def Let_def)

subsection \<open>Answers\<close>

text \<open>
  C30. Whatever a worker does with a response, in any order and with the manager alive or gone,
  at most one wakeup is asked for: the first answer wins, the others are ignored, and the
  state never goes back.
\<close>
theorem async_response_answers_once:
  "length (snd (run_ops (async_response_answer E ref) ops r)) \<le> 1 \<and>
   ar_state r \<le> ar_state (fst (run_ops (async_response_answer E ref) ops r))"
proof
  have one: "length (snd (async_response_answer E ref op x)) \<le> 1" for op x
    by (cases op) (simp_all add: async_response_answer_def async_response_send_def async_response_stream_def split_def Let_def)
  from ar_once.run_one_output [of E ref ops r] one
  show "length (snd (run_ops (async_response_answer E ref) ops r)) \<le> 1" by (elim disjE exE conjE) simp_all
  have "ar_state x \<le> ar_state (fst (async_response_answer E ref op x))" for op x
    using async_response_do_mono by (simp add: async_response_answer_def)
  then show "ar_state r \<le> ar_state (fst (run_ops (async_response_answer E ref) ops r))"
    by (intro run_ops_invariant [where P = "\<lambda>x. ar_state r \<le> ar_state x"]) (auto intro: order_trans)
qed

end
