(* ===== verification/Small_Steps.thy ===== *)
theory Small_Steps
  imports World
begin

text \<open>
  The operations a worker thread calls on a response or a stream, cut into the accesses
  other threads can see: each read or write of the atomic state, each block of writes to the
  other members, and each call of \<open>mg_wakeup\<close> is a step, and the event loop may run
  between any two of them. Run without interruption the steps are the operations of
  \<open>Async_Stream\<close> and \<open>Async_Response\<close>.
\<close>

fun run_steps :: "('c \<Rightarrow> 'w \<Rightarrow> ('c \<times> 'w) option) \<Rightarrow> nat \<Rightarrow> 'c \<Rightarrow> 'w \<Rightarrow> ('c \<times> 'w) option" where
  "run_steps step 0 c w = Some (c, w)"
| "run_steps step (Suc n) c w =
     (case step c w of None \<Rightarrow> None | Some (c', w') \<Rightarrow> run_steps step n c' w')"

lemma run_steps_add:
  "run_steps step (m + n) c w =
     (case run_steps step m c w of None \<Rightarrow> None | Some (c', w') \<Rightarrow> run_steps step n c' w')"
  by (induction m arbitrary: c w) (auto split: option.split)

subsection \<open>\<open>async_stream::send\<close> and \<open>close\<close>\<close>

datatype stream_pc =
    SP_move string
  | SP_clear
  | SP_store stream_state
  | SP_wake
  | SP_fail
  | SP_done

definition update_strm :: "nat \<Rightarrow> (async_stream \<Rightarrow> async_stream) \<Rightarrow> 'p world \<Rightarrow> 'p world option" where
  "update_strm ref f w =
     (case w_strm w ref of None \<Rightarrow> None | Some s \<Rightarrow> Some (set_strm ref (f s) w))"

fun stream_step :: "'p mg_env \<Rightarrow> nat \<Rightarrow> stream_pc \<Rightarrow> 'p world \<Rightarrow> (stream_pc \<times> 'p world) option" where
  "stream_step E ref (SP_move body) w =
     map_option (Pair (SP_store S_has_data)) (update_strm ref (\<lambda>s. s\<lparr>as_data := body\<rparr>) w)"
| "stream_step E ref SP_clear w =
     map_option (Pair (SP_store S_close)) (update_strm ref (\<lambda>s. s\<lparr>as_data := ''''\<rparr>) w)"
| "stream_step E ref (SP_store st) w =
     map_option (Pair SP_wake) (update_strm ref (\<lambda>s. s\<lparr>as_state := st\<rparr>) w)"
| "stream_step E ref SP_wake w =
     (case w_strm w ref of
        None \<Rightarrow> None
      | Some s \<Rightarrow>
          if env_mgr_alive E
          then Some (if env_wakeup E (as_conn s) (size_t_bytes (as_id s)) then SP_done else SP_fail,
                     emit [MgWakeup (as_conn s) (size_t_bytes (as_id s))] w)
          else Some (SP_done, w))"
| "stream_step E ref SP_fail w =
     map_option (Pair SP_done) (update_strm ref (\<lambda>s. s\<lparr>as_state := S_failed\<rparr>) w)"
| "stream_step E ref SP_done w = Some (SP_done, w)"

text \<open>Four steps are enough: store the data, store the state, wake, and on failure say so.\<close>

lemma stream_send_steps:
  "run_steps (stream_step E ref) 4 (SP_move body) w = map_option (Pair SP_done) (stream_send_op E ref body w)"
  by (cases "w_strm w ref")
    (auto simp: numeral_eq_Suc stream_send_op_def async_stream_send_def update_strm_def world_defs Let_def)

lemma stream_close_steps:
  "run_steps (stream_step E ref) 4 SP_clear w = map_option (Pair SP_done) (stream_close_op E ref w)"
  by (cases "w_strm w ref")
    (auto simp: numeral_eq_Suc stream_close_op_def async_stream_close_def update_strm_def world_defs Let_def)

subsection \<open>\<open>async_response::send\<close> and \<open>stream\<close>\<close>

text \<open>
  A thread is at the next thing to do; \<open>RP_done p\<close> has returned the pointer \<open>p\<close> (null
  for \<open>send\<close>). \<open>RP_return\<close> is the copy of \<open>m_stream\<close> made by \<open>return m_stream\<close>.
\<close>

datatype response_pc =
    RP_guard async_response_op
  | RP_fill async_response_op
  | RP_wake response_state
  | RP_store response_state
  | RP_return
  | RP_done "nat option"

definition update_resp :: "nat \<Rightarrow> (async_response \<Rightarrow> async_response) \<Rightarrow> 'p world \<Rightarrow> 'p world option" where
  "update_resp ref f w =
     (case w_resp w ref of None \<Rightarrow> None | Some r \<Rightarrow> Some (set_resp ref (f r) w))"

text \<open>The members the two operations fill in, with the stream that \<open>stream\<close> creates.\<close>

fun response_fill :: "nat \<Rightarrow> async_response_op \<Rightarrow> async_response \<Rightarrow> async_response \<times> async_stream option" where
  "response_fill sref (ASend code body) r =
     (r\<lparr>ar_payload := \<lparr>pl_code = code, pl_headers = headers_format False (ar_headers r), pl_body = body\<rparr>\<rparr>, None)"
| "response_fill sref (AStream code encoding) r =
     (let h = headers_set ''Transfer-Encoding'' encoding (headers_remove ''Content-Length'' (ar_headers r))
      in (r\<lparr>ar_headers := h, ar_stream := Some sref\<rparr>,
          Some (async_stream_new (ar_conn r) (ar_id r) (format_preamble code (headers_format False h)))))"
| "response_fill sref (AHeaderSet n v) r = (async_response_update_headers (headers_set n v) r, None)"
| "response_fill sref (AHeaderRemove n) r = (async_response_update_headers (headers_remove n) r, None)"
| "response_fill sref AHeaderClear r = (async_response_update_headers headers_clear r, None)"

fun answer_state :: "async_response_op \<Rightarrow> response_state option" where
  "answer_state (ASend code body) = Some R_sending"
| "answer_state (AStream code encoding) = Some R_streaming"
| "answer_state _ = None"

fun response_step :: "'p mg_env \<Rightarrow> nat \<Rightarrow> response_pc \<Rightarrow> 'p world \<Rightarrow> (response_pc \<times> 'p world) option" where
  "response_step E ref (RP_guard op) w =
     (case w_resp w ref of
        None \<Rightarrow> None
      | Some r \<Rightarrow>
          if answer_state op \<noteq> None \<and> ar_state r \<noteq> R_pending then Some (RP_done None, w)
          else Some (RP_fill op, w))"
| "response_step E ref (RP_fill op) w =
     (case w_resp w ref of
        None \<Rightarrow> None
      | Some r \<Rightarrow>
          if answer_state op \<noteq> None \<and> \<not> env_mgr_alive E then Some (RP_store R_failed, w)
          else
            let (r', created) = response_fill (w_next w) op r;
                w1 = set_resp ref r' w;
                w2 = (case created of
                        None \<Rightarrow> w1
                      | Some s \<Rightarrow> set_strm (w_next w) s (w1\<lparr>w_next := Suc (w_next w)\<rparr>))
            in Some (case answer_state op of None \<Rightarrow> RP_done None | Some st \<Rightarrow> RP_wake st, w2))"
| "response_step E ref (RP_wake st) w =
     (case w_resp w ref of
        None \<Rightarrow> None
      | Some r \<Rightarrow>
          Some (RP_store (if env_wakeup E (ar_conn r) (size_t_bytes (ar_id r)) then st else R_failed),
                emit [MgWakeup (ar_conn r) (size_t_bytes (ar_id r))] w))"
| "response_step E ref (RP_store st) w =
     map_option (Pair (if st = R_streaming then RP_return else RP_done None))
       (update_resp ref (\<lambda>r. r\<lparr>ar_state := st\<rparr>) w)"
| "response_step E ref RP_return w =
     (case w_resp w ref of None \<Rightarrow> None | Some r \<Rightarrow> Some (RP_done (ar_stream r), w))"
| "response_step E ref (RP_done p) w = Some (RP_done p, w)"

text \<open>Five steps are enough for every operation, whatever its branch.\<close>

lemma response_steps:
  "run_steps (response_step E ref) 5 (RP_guard op) w =
     map_option (\<lambda>(w', p). (RP_done p, w')) (response_op E ref op w)"
proof (cases "w_resp w ref")
  case None
  then show ?thesis by (simp add: numeral_eq_Suc response_op_def)
next
  case (Some r)
  then show ?thesis
    by (cases op)
      (auto simp: numeral_eq_Suc response_op_def async_response_send_def async_response_stream_def
        update_resp_def world_defs Let_def fun_upd_idem)
qed

end
