(* ===== verification/Channel.thy ===== *)
theory Channel
  imports Async_Flow Small_Steps
begin

text \<open>
  A worker thread that streams, and the event loop, running at the same time. The worker is
  the loop the README gives for a streamed answer: while \<open>wait\<close> returns true, send the next
  chunk, or close the stream when there is none left. Its calls are the small steps of
  \<open>Small_Steps\<close>; between any two of them the event loop may take a wakeup from the queue
  \<open>mg_wakeup\<close> fills, or handle a write, a poll or the close of the connection. Nothing reaches
  a connection after its close.
\<close>

subsection \<open>The two threads\<close>

text \<open>The producer is in its loop, in a call (of \<open>close\<close> when the flag is set), or finished.\<close>

datatype producer =
    P_loop
  | P_call stream_pc bool
  | P_stop

record 'p run =
  rn_world :: "'p world"
  rn_producer :: producer
  rn_todo :: "string list"
  rn_queue :: "string list"
  rn_open :: bool

text \<open>The payloads that successful calls of \<open>mg_wakeup\<close> put into the queue.\<close>

fun queued :: "'p mg_env \<Rightarrow> mg_call list \<Rightarrow> string list" where
  "queued E [] = []"
| "queued E (MgWakeup c d # ks) = (if env_wakeup E c d then d # queued E ks else queued E ks)"
| "queued E (_ # ks) = queued E ks"

text \<open>
  Each step happens in some environment of \<open>Es\<close>: whether the manager still exists and
  whether a wakeup succeeds may change from step to step.
\<close>

inductive run_step :: "'p mg_env set \<Rightarrow> mg_connection \<Rightarrow> nat \<Rightarrow> 'p run \<Rightarrow> 'p run \<Rightarrow> bool"
  for Es conn ref where
  run_wait_send:
    "rn_producer s = P_loop \<Longrightarrow> w_strm (rn_world s) ref = Some x \<Longrightarrow>
     async_stream_wait (\<lambda>i. async_stream_get_state x) 0 = Some True \<Longrightarrow> rn_todo s = d # ds \<Longrightarrow>
     run_step Es conn ref s (s\<lparr>rn_producer := P_call (SP_move d) False, rn_todo := ds\<rparr>)"
| run_wait_close:
    "rn_producer s = P_loop \<Longrightarrow> w_strm (rn_world s) ref = Some x \<Longrightarrow>
     async_stream_wait (\<lambda>i. async_stream_get_state x) 0 = Some True \<Longrightarrow> rn_todo s = [] \<Longrightarrow>
     run_step Es conn ref s (s\<lparr>rn_producer := P_call SP_clear True\<rparr>)"
| run_wait_stop:
    "rn_producer s = P_loop \<Longrightarrow> w_strm (rn_world s) ref = Some x \<Longrightarrow>
     async_stream_wait (\<lambda>i. async_stream_get_state x) 0 = Some False \<Longrightarrow>
     run_step Es conn ref s (s\<lparr>rn_producer := P_stop\<rparr>)"
| run_call:
    "rn_producer s = P_call pc cl \<Longrightarrow> pc \<noteq> SP_done \<Longrightarrow> E \<in> Es \<Longrightarrow>
     stream_step E ref pc (rn_world s) = Some (pc', w') \<Longrightarrow>
     run_step Es conn ref s (s\<lparr>rn_world := w', rn_producer := P_call pc' cl,
       rn_queue := rn_queue s @ queued E (drop (length (w_calls (rn_world s))) (w_calls w'))\<rparr>)"
| run_return:
    "rn_producer s = P_call SP_done cl \<Longrightarrow>
     run_step Es conn ref s (s\<lparr>rn_producer := if cl then P_stop else P_loop\<rparr>)"
| run_wakeup:
    "rn_open s \<Longrightarrow> rn_queue s = d # ds \<Longrightarrow> handle_wakeup conn d (rn_world s) = Some w' \<Longrightarrow>
     run_step Es conn ref s (s\<lparr>rn_world := w', rn_queue := ds\<rparr>)"
| run_write:
    "rn_open s \<Longrightarrow> E \<in> Es \<Longrightarrow> handle_write E (conn\<lparr>c_send_len := len\<rparr>) (rn_world s) = Some w' \<Longrightarrow>
     run_step Es conn ref s (s\<lparr>rn_world := w'\<rparr>)"
| run_poll:
    "rn_open s \<Longrightarrow> handle_poll conn (rn_world s) = Some w' \<Longrightarrow>
     run_step Es conn ref s (s\<lparr>rn_world := w'\<rparr>)"
| run_close:
    "rn_open s \<Longrightarrow> handle_close conn (rn_world s) = Some (conn', w') \<Longrightarrow>
     run_step Es conn ref s (s\<lparr>rn_world := w', rn_open := False\<rparr>)"

inductive_cases run_stepE: "run_step Es conn ref s t"

subsection \<open>The channel it promises\<close>

text \<open>
  Whether the connection is open, what is on the wire and what is still to come, the terminal
  chunk included: a step moves one chunk. A lossy channel may give up what is left, and so
  does a close.
\<close>

type_synonym channel = "bool \<times> mg_call list \<times> string list"

inductive channel_step :: "bool \<Rightarrow> ulong \<Rightarrow> channel \<Rightarrow> channel \<Rightarrow> bool" for lossy c where
  channel_move: "channel_step lossy c (True, out, d # ds) (True, out @ [MgHttpWriteChunk c d], ds)"
| channel_abort: "lossy \<Longrightarrow> channel_step lossy c (True, out, ds) (True, out, [])"
| channel_close: "channel_step lossy c (True, out, ds) (False, out, [])"

text \<open>The abstract state of a run. What was lost is not left any more.\<close>

fun rest :: "bool \<Rightarrow> 'p run \<Rightarrow> string list" where
  "rest True s = []"
| "rest False s = rn_todo s @ ['''']"

definition item :: "nat \<Rightarrow> 'p run \<Rightarrow> string" where
  "item ref s = (case w_strm (rn_world s) ref of None \<Rightarrow> '''' | Some x \<Rightarrow> as_data x)"

definition after_call :: "nat \<Rightarrow> bool \<Rightarrow> 'p run \<Rightarrow> string list" where
  "after_call ref cl s =
     (if rn_queue s \<noteq> [] then item ref s # rest cl s
      else case w_strm (rn_world s) ref of
             None \<Rightarrow> []
           | Some x \<Rightarrow> if as_state x = S_flush \<or> as_state x = S_empty then rest cl s else [])"

fun in_call :: "nat \<Rightarrow> stream_pc \<Rightarrow> bool \<Rightarrow> 'p run \<Rightarrow> string list" where
  "in_call ref (SP_move d) cl s = d # rest cl s"
| "in_call ref SP_clear cl s = '''' # rest cl s"
| "in_call ref (SP_store st) cl s = item ref s # rest cl s"
| "in_call ref SP_wake cl s = item ref s # rest cl s"
| "in_call ref SP_fail cl s = []"
| "in_call ref SP_done cl s = after_call ref cl s"

definition run_left :: "nat \<Rightarrow> 'p run \<Rightarrow> string list" where
  "run_left ref s =
     (case rn_producer s of
        P_loop \<Rightarrow> after_call ref False s
      | P_call pc cl \<Rightarrow> in_call ref pc cl s
      | P_stop \<Rightarrow> after_call ref True s)"

definition run_abs :: "nat \<Rightarrow> 'p run \<Rightarrow> channel" where
  "run_abs ref s =
     (rn_open s, net_calls (w_calls (rn_world s)), if rn_open s then run_left ref s else [])"

subsection \<open>What holds of a run\<close>

text \<open>No response of the connection has failed, so a poll sends nothing.\<close>

definition calm :: "mg_connection \<Rightarrow> 'p world \<Rightarrow> bool" where
  "calm conn w \<longleftrightarrow>
     (\<forall>i ref. pend_find (pending_responses w) (c_id conn) i = Some ref \<longrightarrow> \<not> ref_failed (w_resp w) ref)"

lemma calm_same:
  "calm conn w \<Longrightarrow> pending_responses w' = pending_responses w \<Longrightarrow> w_resp w' = w_resp w \<Longrightarrow> calm conn w'"
  by (simp add: calm_def)

text \<open>The state and the queue for each place the producer can be at.\<close>

abbreviation message :: "bool \<Rightarrow> stream_state" where
  "message cl \<equiv> if cl then S_close else S_has_data"

inductive phase :: "bool \<Rightarrow> string \<Rightarrow> producer \<Rightarrow> string list \<Rightarrow> stream_state \<Rightarrow> bool" for lossy b where
  ph_idle: "p = P_loop \<or> p = P_call SP_done False \<Longrightarrow> st = S_flush \<or> st = S_empty \<Longrightarrow> phase lossy b p [] st"
| ph_move: "phase lossy b (P_call (SP_move d) False) [] S_empty"
| ph_clear: "phase lossy b (P_call SP_clear True) [] S_empty"
| ph_store: "phase lossy b (P_call (SP_store (message cl)) cl) [] S_empty"
| ph_wake: "phase lossy b (P_call SP_wake cl) [] (message cl)"
| ph_sent: "p = P_call SP_done cl \<or> p = (if cl then P_stop else P_loop) \<Longrightarrow> phase lossy b p [b] (message cl)"
| ph_fail: "lossy \<Longrightarrow> phase lossy b (P_call SP_fail cl) [] (message cl)"
| ph_lost: "lossy \<Longrightarrow> p = P_call SP_done cl \<or> p = P_loop \<or> p = P_stop \<Longrightarrow>
    st = S_has_data \<or> st = S_close \<or> st = S_failed \<Longrightarrow> phase lossy b p [] st"

inductive_cases phaseE: "phase lossy b p q st"

fun closing :: "producer \<Rightarrow> bool" where
  "closing P_loop = False"
| "closing (P_call pc cl) = cl"
| "closing P_stop = True"

text \<open>
  Either the stream is registered, in a state that fits the place of the producer, or the
  event loop has sent the terminal chunk and forgotten it.
\<close>

definition stream_over :: "'p world \<Rightarrow> mg_connection \<Rightarrow> nat \<Rightarrow> bool" where
  "stream_over w conn ref \<longleftrightarrow>
     world_inv w \<and> (\<exists>k ctx. context_of conn w = Some (k, ctx) \<and> rc_stream ctx = None) \<and>
     (\<exists>x. w_strm w ref = Some x \<and> as_state x = S_completed)"

text \<open>After a close only the worker goes on, and what it does is not seen any more.\<close>

definition run_ok :: "bool \<Rightarrow> mg_connection \<Rightarrow> u64 \<Rightarrow> nat \<Rightarrow> 'p run \<Rightarrow> bool" where
  "run_ok lossy conn rid ref s \<longleftrightarrow> rn_open s \<longrightarrow>
     calm conn (rn_world s) \<and>
     ((\<exists>st d. stream_at (rn_world s) conn rid ref st d \<and>
         phase lossy (size_t_bytes rid) (rn_producer s) (rn_queue s) st \<and>
         (st = S_close \<or> rn_producer s = P_call (SP_store S_close) True \<longrightarrow> d = ''''))
      \<or> (stream_over (rn_world s) conn ref \<and> rn_queue s = [] \<and>
         (rn_producer s = P_call SP_done True \<or> rn_producer s = P_stop)))"

lemma calm_poll:
  assumes "world_inv w" "calm conn w" "handle_poll conn w = Some w'"
  shows "world_inv w' \<and> w_calls w' = w_calls w \<and> w_strm w' = w_strm w \<and> w_ctx w' = w_ctx w \<and>
    pending_streams w' = pending_streams w \<and> calm conn w'"
proof (cases "um_find (=) (pending_responses w) (c_id conn)")
  case None
  with assms show ?thesis by (simp add: handle_poll_def)
next
  case (Some rs)
  note pok = world_invD(1) [OF assms(1)]
  have rsok: "um_ok (=) rs" using pok Some by (simp add: pend_ok_def)
  have live: "\<forall>e \<in> set rs. w_resp w (snd e) \<noteq> None" using responses_live(2) [OF assms(1) Some] by blast
  have "\<not> ref_failed (w_resp w) (snd e)" if "e \<in> set rs" for e
  proof -
    have "um_find (=) rs (fst e) = Some (snd e)"
      using rsok that by (simp add: um_find_map_of um_ok_distinct map_of_is_SomeI)
    with Some assms(2) show ?thesis by (simp add: calm_def pend_find_def)
  qed
  then have F: "filter (\<lambda>e. \<not> ref_failed (w_resp w) (snd e)) rs = rs" "filter (\<lambda>e. ref_failed (w_resp w) (snd e)) rs = []"
    by (auto simp: filter_id_conv filter_empty_conv)
  have w': "w' = set_pending_responses (um_put (=) (c_id conn) rs (pending_responses w)) w"
    using assms(3) Some poll_loop_eq [OF live, of conn] F by (simp add: handle_poll_def emit_def world_defs)
  have "pend_find (um_put (=) (c_id conn) rs (pending_responses w)) c i = pend_find (pending_responses w) c i" for c i
    using Some by (auto simp: pend_find_put_conn [OF pok]) (simp add: pend_find_def)
  with assms(2) have "calm conn w'" by (simp add: w' calm_def set_pending_responses_def)
  moreover have "world_inv w'" using handle_poll_safe [OF assms(1), of conn] assms(3) by (auto simp: good_step_def)
  ultimately show ?thesis by (simp add: w' set_pending_responses_def)
qed

lemma stream_at_same:
  assumes "stream_at w conn rid ref st d" "world_inv w'" "w_strm w' = w_strm w" "w_ctx w' = w_ctx w"
    and "pending_streams w' = pending_streams w"
  shows "stream_at w' conn rid ref st d"
  using assms context_of_same [of w' w conn] by (simp add: stream_at_def)

lemma stream_over_same:
  assumes "stream_over w conn ref" "world_inv w'" "w_strm w' = w_strm w" "w_ctx w' = w_ctx w"
  shows "stream_over w' conn ref"
  using assms context_of_same [of w' w conn] by (simp add: stream_over_def)

lemma stream_over_write:
  assumes over: "stream_over w conn ref" and run: "handle_write E (conn\<lparr>c_send_len := len\<rparr>) w = Some w'"
  shows "stream_over w' conn ref \<and> w_calls w' = w_calls w \<and> pending_responses w' = pending_responses w \<and> w_resp w' = w_resp w"
proof -
  let ?conn = "conn\<lparr>c_send_len := len\<rparr>"
  from over obtain k ctx x where inv: "world_inv w" and ctx: "context_of conn w = Some (k, ctx)" "rc_stream ctx = None"
    and x: "w_strm w ref = Some x" "as_state x = S_completed"
    by (auto simp: stream_over_def)
  have ctx': "context_of ?conn w = Some (k, ctx)" using ctx(1) by (simp add: context_of_def)
  from handle_write_plain [OF inv ctx' ctx(2), of E] run
  have w': "w' = w\<lparr>w_strm := \<lambda>ref. if Some ref \<in> set (concat (map (map snd \<circ> snd) (pending_streams w)))
    then map_option (pump_async_stream E ?conn) (w_strm w ref) else w_strm w ref\<rparr>" by simp
  have "world_inv w'" using handle_write_safe [OF inv ctx', of E] run by (auto simp: good_step_def)
  moreover have "w_ctx w' = w_ctx w" by (simp add: w')
  moreover have "w_strm w' ref = Some x"
    using x by (simp add: w' pump_async_stream_def async_stream_get_state_def)
  ultimately have "stream_over w' conn ref"
    using ctx x context_of_same [of w' w conn] by (auto simp: stream_over_def)
  then show ?thesis by (simp add: w')
qed

lemma calm_emit_strm [simp]: "calm conn (emit ks (set_strm ref x w)) = calm conn w" "calm conn (emit ks w) = calm conn w"
  "calm conn (set_strm ref x w) = calm conn w"
  by (simp_all add: calm_def world_defs)

subsection \<open>Every step keeps it, and is a step of the channel\<close>

lemma stream_at_strm:
  "stream_at w conn rid ref st d \<Longrightarrow>
    w_strm w ref = Some \<lparr>as_conn = c_id conn, as_id = rid, as_data = d, as_state = st\<rparr>"
  by (simp add: stream_at_def)

lemma run_left_at:
  assumes "stream_at (rn_world s) conn rid ref st d"
  shows "item ref s = d"
    and "after_call ref cl s = (if rn_queue s \<noteq> [] then d # rest cl s
      else if st = S_flush \<or> st = S_empty then rest cl s else [])"
  using stream_at_strm [OF assms] by (simp_all add: item_def after_call_def)

lemma rest_world [simp]: "rest cl (s\<lparr>rn_world := w, rn_producer := p, rn_queue := q\<rparr>) = rest cl s"
  "rest cl (s\<lparr>rn_producer := p\<rparr>) = rest cl s" "rest cl (s\<lparr>rn_world := w, rn_queue := q\<rparr>) = rest cl s"
  "rest cl (s\<lparr>rn_world := w\<rparr>) = rest cl s"
  by (cases cl; simp)+

lemma stream_at_update:
  assumes "stream_at w conn rid ref st d" "update_strm ref f w = Some w'"
    and "f \<lparr>as_conn = c_id conn, as_id = rid, as_data = d, as_state = st\<rparr> =
      \<lparr>as_conn = c_id conn, as_id = rid, as_data = d', as_state = st'\<rparr>"
  shows "stream_at w' conn rid ref st' d' \<and> w_calls w' = w_calls w \<and>
    pending_responses w' = pending_responses w \<and> w_resp w' = w_resp w"
proof -
  let ?x = "\<lparr>as_conn = c_id conn, as_id = rid, as_data = d', as_state = st'\<rparr>"
  have "w' = emit [] (set_strm ref ?x w)"
    using assms(2,3) stream_at_strm [OF assms(1)] by (simp add: update_strm_def emit_def set_strm_def)
  with stream_at_set [OF assms(1), of "[]" ?x d' st'] show ?thesis by (simp add: world_defs)
qed

text \<open>The phases a call goes through, with what is left in the channel after the step.\<close>

lemma call_step_ok:
  assumes at: "stream_at (rn_world s) conn rid ref st d"
    and ph: "phase lossy (size_t_bytes rid) (P_call pc cl) (rn_queue s) st"
    and cond: "st = S_close \<or> P_call pc cl = P_call (SP_store S_close) True \<longrightarrow> d = ''''"
    and pc: "pc \<noteq> SP_done" and env: "lossy \<or> env_open E"
    and step: "stream_step E ref pc (rn_world s) = Some (pc', w')"
  defines "q' \<equiv> rn_queue s @ queued E (drop (length (w_calls (rn_world s))) (w_calls w'))"
  shows "(\<exists>st' d'. stream_at w' conn rid ref st' d' \<and> phase lossy (size_t_bytes rid) (P_call pc' cl) q' st' \<and>
      (st' = S_close \<or> P_call pc' cl = P_call (SP_store S_close) True \<longrightarrow> d' = '''') \<and>
      (let l = in_call ref pc' cl (s\<lparr>rn_world := w', rn_producer := P_call pc' cl, rn_queue := q'\<rparr>)
       in l = in_call ref pc cl s \<or> (lossy \<and> l = []))) \<and>
    net_calls (w_calls w') = net_calls (w_calls (rn_world s)) \<and>
    pending_responses w' = pending_responses (rn_world s) \<and> w_resp w' = w_resp (rn_world s)"
proof -
  let ?w = "rn_world s"
  let ?s' = "s\<lparr>rn_world := w', rn_producer := P_call pc' cl, rn_queue := q'\<rparr>"
  note strm = stream_at_strm [OF at] and left = run_left_at [OF at]
  have left': "item ref ?s' = d'"
    "after_call ref cl ?s' = (if q' \<noteq> [] then d' # rest cl s else if st' = S_flush \<or> st' = S_empty then rest cl s else [])"
    if "stream_at w' conn rid ref st' d'" for st' d'
    using run_left_at [of ?s' conn rid ref st' d'] that by simp_all
  have result: ?thesis
    if "stream_at w' conn rid ref st' d' \<and> net_calls (w_calls w') = net_calls (w_calls ?w) \<and>
        pending_responses w' = pending_responses ?w \<and> w_resp w' = w_resp ?w"
      and "phase lossy (size_t_bytes rid) (P_call pc' cl) q' st'"
      and "st' = S_close \<or> P_call pc' cl = P_call (SP_store S_close) True \<longrightarrow> d' = ''''"
      and "in_call ref pc' cl ?s' = in_call ref pc cl s \<or> (lossy \<and> in_call ref pc' cl ?s' = [])" for st' d'
    using that unfolding Let_def by blast
  from ph pc show ?thesis
  proof (cases rule: phase.cases)
    case (ph_move b)
    with step have upd: "update_strm ref (\<lambda>s. s\<lparr>as_data := b\<rparr>) ?w = Some w'" and pc': "pc' = SP_store S_has_data" by auto
    have U: "stream_at w' conn rid ref S_empty b \<and> w_calls w' = w_calls ?w \<and>
        pending_responses w' = pending_responses ?w \<and> w_resp w' = w_resp ?w"
      by (rule stream_at_update [OF at upd]) (simp add: ph_move)
    show ?thesis
      by (rule result [of S_empty b])
        (use U ph_move pc' left' [OF conjunct1 [OF U]] phase.ph_store [of lossy _ False] in \<open>simp_all add: q'_def\<close>)
  next
    case ph_clear
    with step have upd: "update_strm ref (\<lambda>s. s\<lparr>as_data := ''''\<rparr>) ?w = Some w'" and pc': "pc' = SP_store S_close" by auto
    have U: "stream_at w' conn rid ref S_empty '''' \<and> w_calls w' = w_calls ?w \<and>
        pending_responses w' = pending_responses ?w \<and> w_resp w' = w_resp ?w"
      by (rule stream_at_update [OF at upd]) (simp add: ph_clear)
    show ?thesis
      by (rule result [of S_empty "''''"])
        (use U ph_clear pc' left' [OF conjunct1 [OF U]] phase.ph_store [of lossy _ True] in \<open>simp_all add: q'_def\<close>)
  next
    case ph_store
    with step have upd: "update_strm ref (\<lambda>s. s\<lparr>as_state := message cl\<rparr>) ?w = Some w'" and pc': "pc' = SP_wake" by auto
    have U: "stream_at w' conn rid ref (message cl) d \<and> w_calls w' = w_calls ?w \<and>
        pending_responses w' = pending_responses ?w \<and> w_resp w' = w_resp ?w"
      by (rule stream_at_update [OF at upd]) simp
    show ?thesis
      by (rule result [of "message cl" d])
        (use U ph_store pc' left' [OF conjunct1 [OF U]] left cond phase.ph_wake [of lossy _ cl] in \<open>simp_all add: q'_def\<close>)
  next
    case ph_wake
    let ?k = "MgWakeup (c_id conn) (size_t_bytes rid)"
    show ?thesis
    proof (cases "env_mgr_alive E")
      case True
      with ph_wake step strm have w': "w' = emit [?k] ?w"
        and pc': "pc' = (if env_wakeup E (c_id conn) (size_t_bytes rid) then SP_done else SP_fail)" by auto
      have "list_all wakeup_ok [?k]" by auto
      from stream_at_set [OF at this refl, of d "message cl"]
      have at': "stream_at w' conn rid ref (message cl) d"
        using strm ph_wake by (simp add: w' set_strm_def fun_upd_idem)
      have q': "q' = (if env_wakeup E (c_id conn) (size_t_bytes rid) then [size_t_bytes rid] else [])"
        using ph_wake by (simp add: q'_def w' emit_def)
      show ?thesis
        by (rule result [of "message cl" d])
          (use at' w' pc' q' ph_wake left' [OF at'] left cond env phase.ph_sent [of _ cl lossy] phase.ph_fail [of lossy _ cl]
            in \<open>auto simp: emit_def env_open_def\<close>)
    next
      case False
      with ph_wake step strm have w': "w' = ?w" and pc': "pc' = SP_done" by auto
      with ph_wake have q': "q' = []" by (simp add: q'_def)
      from env False have lossy by (simp add: env_open_def)
      have at': "stream_at w' conn rid ref (message cl) d" using at w' ph_wake by simp
      show ?thesis
        by (rule result [of "message cl" d])
          (use \<open>lossy\<close> at' w' pc' q' ph_wake left' [OF at'] left cond phase.ph_lost [of lossy "P_call SP_done cl"] in auto)
    qed
  next
    case ph_fail
    with step have upd: "update_strm ref (\<lambda>s. s\<lparr>as_state := S_failed\<rparr>) ?w = Some w'" and pc': "pc' = SP_done" by auto
    have U: "stream_at w' conn rid ref S_failed d \<and> w_calls w' = w_calls ?w \<and>
        pending_responses w' = pending_responses ?w \<and> w_resp w' = w_resp ?w"
      by (rule stream_at_update [OF at upd]) simp
    show ?thesis
      by (rule result [of S_failed d])
        (use U ph_fail pc' left' [OF conjunct1 [OF U]] left cond phase.ph_lost [of lossy "P_call SP_done cl"] in \<open>auto simp: q'_def\<close>)
  qed (auto split: if_splits)
qed

lemma phase_queue:
  assumes "phase lossy b p (d # ds) st"
  shows "ds = [] \<and> d = b \<and>
    (\<exists>cl. st = message cl \<and> (p = P_call SP_done cl \<or> p = (if cl then P_stop else P_loop)))"
  using assms
proof (cases rule: phase.cases)
  case (ph_sent cl)
  then show ?thesis by blast
qed

text \<open>Outside a call what is left does not depend on where exactly the producer is.\<close>

lemma run_left_idle:
  assumes "p = P_call SP_done cl \<or> p = (if cl then P_stop else P_loop)" "rn_producer s = p"
  shows "run_left ref s = after_call ref cl s"
  using assms by (auto simp: run_left_def split: if_splits)

lemma run_ok_at:
  assumes "calm conn (rn_world s)" "stream_at (rn_world s) conn rid ref st d"
    and "phase lossy (size_t_bytes rid) (rn_producer s) (rn_queue s) st"
    and "st = S_close \<or> rn_producer s = P_call (SP_store S_close) True \<longrightarrow> d = ''''"
  shows "run_ok lossy conn rid ref s"
  using assms unfolding run_ok_def by blast

lemma run_ok_cases [consumes 2, case_names at over]:
  assumes "run_ok lossy conn rid ref s" "rn_open s"
  obtains st d where "stream_at (rn_world s) conn rid ref st d"
      "phase lossy (size_t_bytes rid) (rn_producer s) (rn_queue s) st"
      "st = S_close \<or> rn_producer s = P_call (SP_store S_close) True \<longrightarrow> d = ''''"
    | "stream_over (rn_world s) conn ref" "rn_queue s = []" "rn_producer s = P_call SP_done True \<or> rn_producer s = P_stop"
  using assms unfolding run_ok_def by blast

text \<open>A wakeup takes the message out of the stream and puts it on the wire.\<close>

lemma wakeup_step_ok:
  assumes at: "stream_at (rn_world s) conn rid ref st d" and calm: "calm conn (rn_world s)"
    and ph: "phase lossy (size_t_bytes rid) (rn_producer s) (b # bs) st"
    and q: "rn_queue s = b # bs" and cond: "st = S_close \<longrightarrow> d = ''''"
    and run: "handle_wakeup conn b (rn_world s) = Some w'" and op: "rn_open s"
  shows "run_ok lossy conn rid ref (s\<lparr>rn_world := w', rn_queue := bs\<rparr>) \<and>
    channel_step lossy (c_id conn) (run_abs ref s) (run_abs ref (s\<lparr>rn_world := w', rn_queue := bs\<rparr>))"
proof -
  let ?w = "rn_world s" and ?t = "s\<lparr>rn_world := w', rn_queue := bs\<rparr>"
  from phase_queue [OF ph] obtain cl where b: "b = size_t_bytes rid" "bs = []" and st: "st = message cl"
    and p: "rn_producer s = P_call SP_done cl \<or> rn_producer s = (if cl then P_stop else P_loop)" by blast
  have left: "run_left ref s = d # rest cl s"
    using run_left_idle [OF p refl] run_left_at [OF at] q by simp
  have left': "run_left ref ?t = after_call ref cl ?t"
    by (rule run_left_idle [OF p]) simp
  show ?thesis
  proof (cases cl)
    case True
    with st have "stream_at ?w conn rid ref S_close d" using at by simp
    from stream_at_wakeup_close [OF this] run b have w':
      "w_calls w' = w_calls ?w @ [MgHttpWriteChunk (c_id conn) '''']" "w_resp w' = w_resp ?w" "w_ctx w' = w_ctx ?w"
      "pending_responses w' = pending_responses ?w"
      "w_strm w' ref = Some \<lparr>as_conn = c_id conn, as_id = rid, as_data = d, as_state = S_completed\<rparr>" by auto
    have "world_inv w'"
      using handle_wakeup_safe [of ?w b rid conn] at run b by (auto simp: stream_at_def good_step_def)
    then have "stream_over w' conn ref"
      using at w' context_of_same [of w' ?w conn] by (simp add: stream_over_def stream_at_def)
    moreover have "calm conn w'" by (rule calm_same [OF calm w'(4,2)])
    moreover have "run_left ref ?t = []" using left' True b w'(5) by (simp add: after_call_def)
    moreover have "d = ''''" using cond st True by simp
    ultimately show ?thesis
      using p True left w'(1) b channel_move [of lossy "c_id conn" "net_calls (w_calls ?w)" "''''" "[]"]
      by (auto simp: run_ok_def run_abs_def op)
  next
    case False
    with st have "stream_at ?w conn rid ref S_has_data d" using at by simp
    from stream_at_wakeup_data [OF this] run b have w': "stream_at w' conn rid ref S_flush ''''"
      "w_calls w' = w_calls ?w @ [MgHttpWriteChunk (c_id conn) d]" "w_resp w' = w_resp ?w"
      "pending_responses w' = pending_responses ?w" by auto
    have "run_ok lossy conn rid ref ?t"
      by (rule run_ok_at [of _ _ _ _ S_flush "''''"])
        (use calm_same [OF calm w'(4,3)] w'(1) p False b in \<open>auto intro: phase.ph_idle\<close>)
    moreover have "run_left ref ?t = rest False s"
      using left' False run_left_at(2) [of ?t conn rid ref S_flush "''''" cl] w'(1) b by simp
    ultimately show ?thesis
      using left w'(2) False channel_move [of lossy "c_id conn" "net_calls (w_calls ?w)" d "rest False s"]
      by (simp add: run_abs_def op)
  qed
qed

text \<open>Writes and polls move the stream from \<open>flush\<close> to \<open>empty\<close> at most.\<close>

lemma run_left_world:
  assumes "stream_at (rn_world s) conn rid ref st d" "stream_at w' conn rid ref st' d"
    and "st' = S_flush \<or> st' = S_empty \<longleftrightarrow> st = S_flush \<or> st = S_empty"
  shows "run_left ref (s\<lparr>rn_world := w'\<rparr>) = run_left ref s"
proof -
  let ?t = "s\<lparr>rn_world := w'\<rparr>"
  have "item ref ?t = item ref s" "after_call ref cl ?t = after_call ref cl s" for cl
    using run_left_at [OF assms(1)] run_left_at [of ?t conn rid ref st' d] assms(2,3) by simp_all
  moreover from this have "in_call ref pc cl ?t = in_call ref pc cl s" for pc cl by (cases pc) simp_all
  ultimately show ?thesis by (simp add: run_left_def split: producer.split)
qed

lemma run_left_over:
  assumes "stream_over (rn_world s) conn ref" "rn_queue s = []" "rn_producer s = P_call SP_done True \<or> rn_producer s = P_stop"
  shows "run_left ref s = []"
  using assms by (auto simp: run_left_def after_call_def stream_over_def)

lemma phase_write:
  assumes "phase lossy b p q st" "st = S_flush"
  shows "phase lossy b p q S_empty"
  using assms by (cases rule: phase.cases) (auto intro: phase.ph_idle split: if_splits)

lemma run_ok_write:
  assumes ok: "run_ok lossy conn rid ref s" and op: "rn_open s"
    and run: "handle_write E (conn\<lparr>c_send_len := len\<rparr>) (rn_world s) = Some w'"
  shows "run_ok lossy conn rid ref (s\<lparr>rn_world := w'\<rparr>) \<and> run_abs ref (s\<lparr>rn_world := w'\<rparr>) = run_abs ref s"
proof -
  let ?w = "rn_world s" and ?t = "s\<lparr>rn_world := w'\<rparr>"
  from ok op have calm: "calm conn ?w" by (simp add: run_ok_def)
  from ok op show ?thesis
  proof (cases rule: run_ok_cases)
    case (at st d)
    let ?st = "if st = S_flush \<and> len < env_io_size E then S_empty else st"
    from stream_at_write_any [OF at(1), of E len] run
    have w': "stream_at w' conn rid ref ?st d" "w_calls w' = w_calls ?w" "pending_responses w' = pending_responses ?w"
      "w_resp w' = w_resp ?w" by auto
    have "phase lossy (size_t_bytes rid) (rn_producer s) (rn_queue s) ?st"
      using at(2) phase_write [OF at(2)] by simp
    then have "run_ok lossy conn rid ref ?t"
      by (intro run_ok_at [of _ ?t _ _ ?st d]) (use calm_same [OF calm w'(3,4)] w'(1) at(3) in simp_all)
    moreover have "run_left ref ?t = run_left ref s"
      by (rule run_left_world [OF at(1) w'(1)]) simp
    ultimately show ?thesis using w'(2) by (simp add: run_abs_def)
  next
    case over
    from stream_over_write [OF over(1) run] have w': "stream_over w' conn ref" "w_calls w' = w_calls ?w"
      "pending_responses w' = pending_responses ?w" "w_resp w' = w_resp ?w" by simp_all
    then show ?thesis
      using over run_left_over [of s] run_left_over [of ?t] calm_same [OF calm w'(3,4)]
      by (simp add: run_ok_def run_abs_def)
  qed
qed

lemma run_ok_poll:
  assumes ok: "run_ok lossy conn rid ref s" and op: "rn_open s" and run: "handle_poll conn (rn_world s) = Some w'"
  shows "run_ok lossy conn rid ref (s\<lparr>rn_world := w'\<rparr>) \<and> run_abs ref (s\<lparr>rn_world := w'\<rparr>) = run_abs ref s"
proof -
  let ?w = "rn_world s" and ?t = "s\<lparr>rn_world := w'\<rparr>"
  from ok op have calm: "calm conn ?w" by (simp add: run_ok_def)
  have "world_inv ?w" using ok op by (auto simp: run_ok_def stream_at_def stream_over_def)
  note P = calm_poll [OF this calm run]
  from ok op show ?thesis
  proof (cases rule: run_ok_cases)
    case (at st d)
    have w': "stream_at w' conn rid ref st d" by (rule stream_at_same [OF at(1)]) (use P in simp_all)
    have "run_ok lossy conn rid ref ?t"
      by (rule run_ok_at [of _ ?t _ _ st d]) (use P w' at in simp_all)
    moreover have "run_left ref ?t = run_left ref s" by (rule run_left_world [OF at(1) w']) simp
    ultimately show ?thesis using P by (simp add: run_abs_def)
  next
    case over
    have "stream_over w' conn ref" by (rule stream_over_same [OF over(1)]) (use P in simp_all)
    then show ?thesis
      using over P run_left_over [of s] run_left_over [of ?t] by (simp add: run_ok_def run_abs_def)
  qed
qed

text \<open>The steps of the loop around the calls.\<close>

lemma run_ok_loop:
  assumes "run_ok lossy conn rid ref s" "rn_producer s = P_loop" "w_strm (rn_world s) ref = Some x"
    and "async_stream_wait (\<lambda>i. async_stream_get_state x) 0 = Some b" and op: "rn_open s"
  obtains d where "calm conn (rn_world s)" "stream_at (rn_world s) conn rid ref (if b then S_empty else S_failed) d"
    "rn_queue s = []" "\<not> b \<Longrightarrow> lossy"
proof -
  from assms(1) op show ?thesis
  proof (cases rule: run_ok_cases)
    case (at st d)
    from assms(3,4) stream_at_strm [OF at(1)] have st: "wait_done st" "b = (st = S_empty)"
      by (auto simp: wait_const async_stream_get_state_def)
    with at(2) assms(2) have "rn_queue s = [] \<and> st = (if b then S_empty else S_failed) \<and> (\<not> b \<longrightarrow> lossy)"
      by (cases rule: phase.cases) (auto simp: wait_done_def split: if_splits)
    with at(1) assms(1) op show ?thesis by (intro that) (auto simp: run_ok_def)
  next
    case over
    with assms(2) show ?thesis by simp
  qed
qed

lemma run_ok_return:
  assumes ok: "run_ok lossy conn rid ref s" and p: "rn_producer s = P_call SP_done cl" and op: "rn_open s"
  shows "run_ok lossy conn rid ref (s\<lparr>rn_producer := if cl then P_stop else P_loop\<rparr>)"
  using ok op
proof (cases rule: run_ok_cases)
  case (at st d)
  have "phase lossy (size_t_bytes rid) (if cl then P_stop else P_loop) (rn_queue s) st"
    using at(2) p phase.ph_sent [of P_stop True lossy] phase.ph_sent [of P_loop False lossy]
    by (cases rule: phase.cases) (auto intro: phase.ph_idle phase.ph_lost split: if_splits)
  then show ?thesis
    by (intro run_ok_at [of _ _ _ _ st d]) (use ok op at in \<open>auto simp: run_ok_def split: if_splits\<close>)
next
  case over
  with ok p show ?thesis by (auto simp: run_ok_def)
qed

lemma run_abs_return:
  "rn_producer s = P_call SP_done cl \<Longrightarrow>
    run_abs ref (s\<lparr>rn_producer := if cl then P_stop else P_loop\<rparr>) = run_abs ref s"
  by (simp add: run_abs_def run_left_def after_call_def item_def split: option.split)

text \<open>The close of the connection gives up what is left, and sends nothing.\<close>

lemma close_tables_calls:
  "close_responses conn w = Some w' \<Longrightarrow> w_calls w' = w_calls w"
  "close_streams conn w = Some w' \<Longrightarrow> w_calls w' = w_calls w"
  "delete_context conn w = Some w' \<Longrightarrow> w_calls w' = w_calls w"
  by (auto simp: close_responses_def close_streams_def delete_context_def drop_cert_def
      set_pending_responses_def set_pending_streams_def split: option.splits conn_data.splits)

lemma close_calls:
  "handle_close conn w = Some (conn', w') \<Longrightarrow> w_calls w' = w_calls w"
  by (auto simp: handle_close_def dest!: close_tables_calls split: option.splits if_splits)

text \<open>The worker itself sends nothing but wakeups.\<close>

lemma stream_step_net:
  "stream_step E ref pc w = Some (pc', w') \<Longrightarrow> net_calls (w_calls w') = net_calls (w_calls w)"
  by (cases pc) (auto simp: update_strm_def world_defs split: option.splits if_splits)

lemma closed_step:
  assumes "run_step Es conn ref s t" "\<not> rn_open s"
  shows "\<not> rn_open t" "net_calls (w_calls (rn_world t)) = net_calls (w_calls (rn_world s))"
  using assms by (auto elim!: run_stepE dest: stream_step_net)

lemma open_step_ok:
  assumes step: "run_step Es conn ref s t" and ok: "run_ok lossy conn rid ref s" and op: "rn_open s"
    and env: "lossy \<or> (\<forall>E \<in> Es. env_open E)"
  shows "run_ok lossy conn rid ref t \<and>
    (run_abs ref t = run_abs ref s \<or> channel_step lossy (c_id conn) (run_abs ref s) (run_abs ref t))"
  using step
proof (cases rule: run_step.cases)
  case (run_wait_send x d ds)
  from run_ok_loop [OF ok run_wait_send(2-4) op] obtain e where
    L: "calm conn (rn_world s)" "stream_at (rn_world s) conn rid ref S_empty e" "rn_queue s = []" by auto
  have "run_ok lossy conn rid ref t"
    by (rule run_ok_at [of _ _ _ _ S_empty e]) (use L run_wait_send(1) in \<open>auto intro: phase.ph_move\<close>)
  moreover have "run_left ref t = run_left ref s"
    using run_wait_send run_left_at(2) [OF L(2)] L(3) by (simp add: run_left_def)
  ultimately show ?thesis using run_wait_send(1) by (simp add: run_abs_def)
next
  case (run_wait_close x)
  from run_ok_loop [OF ok run_wait_close(2-4) op] obtain e where
    L: "calm conn (rn_world s)" "stream_at (rn_world s) conn rid ref S_empty e" "rn_queue s = []" by auto
  have "run_ok lossy conn rid ref t"
    by (rule run_ok_at [of _ _ _ _ S_empty e]) (use L run_wait_close(1) in \<open>auto intro: phase.ph_clear\<close>)
  moreover have "run_left ref t = run_left ref s"
    using run_wait_close run_left_at(2) [OF L(2)] L(3) by (simp add: run_left_def)
  ultimately show ?thesis using run_wait_close(1) by (simp add: run_abs_def)
next
  case (run_wait_stop x)
  from run_ok_loop [OF ok run_wait_stop(2-4) op] obtain e where
    L: "calm conn (rn_world s)" "stream_at (rn_world s) conn rid ref S_failed e" "rn_queue s = []" lossy by auto
  have "run_ok lossy conn rid ref t"
    by (rule run_ok_at [of _ _ _ _ S_failed e]) (use L run_wait_stop(1) in \<open>auto intro: phase.ph_lost\<close>)
  moreover have "run_left ref t = run_left ref s"
    using run_wait_stop run_left_at(2) [OF L(2)] run_left_at(2) [of t conn rid ref S_failed e] L
    by (simp add: run_left_def)
  ultimately show ?thesis using run_wait_stop(1) by (simp add: run_abs_def)
next
  case (run_call pc cl E pc' w')
  from env run_call(4) have env: "lossy \<or> env_open E" by blast
  from ok op obtain st d where at: "stream_at (rn_world s) conn rid ref st d"
      "phase lossy (size_t_bytes rid) (P_call pc cl) (rn_queue s) st"
      "st = S_close \<or> P_call pc cl = P_call (SP_store S_close) True \<longrightarrow> d = ''''"
    by (cases rule: run_ok_cases) (use run_call in auto)
  note C = call_step_ok [OF at run_call(3) env run_call(5)]
  then obtain st' d' where t: "stream_at (rn_world t) conn rid ref st' d'"
      "phase lossy (size_t_bytes rid) (rn_producer t) (rn_queue t) st'"
      "st' = S_close \<or> rn_producer t = P_call (SP_store S_close) True \<longrightarrow> d' = ''''"
    and l: "in_call ref pc' cl t = in_call ref pc cl s \<or> lossy \<and> in_call ref pc' cl t = []"
    unfolding run_call(1) Let_def by auto
  have "calm conn (rn_world t)"
    using ok op calm_same [of conn "rn_world s" w'] C [THEN conjunct2] by (simp add: run_call(1) run_ok_def)
  with t have "run_ok lossy conn rid ref t" by (intro run_ok_at)
  moreover have "run_left ref t = in_call ref pc' cl t" "run_left ref s = in_call ref pc cl s"
    using run_call(1,2) by (simp_all add: run_left_def)
  ultimately show ?thesis
    using l C op channel_abort [of lossy] by (auto simp: run_abs_def run_call(1))
next
  case (run_return cl)
  then show ?thesis using run_ok_return [OF ok run_return(2) op] run_abs_return [OF run_return(2)] by simp
next
  case (run_wakeup d ds w')
  from ok op show ?thesis
  proof (cases rule: run_ok_cases)
    case (at st e)
    from ok op have "calm conn (rn_world s)" by (simp add: run_ok_def)
    from wakeup_step_ok [OF at(1) this _ run_wakeup(3) _ run_wakeup(4) op] at run_wakeup show ?thesis by simp
  next
    case over
    with run_wakeup show ?thesis by simp
  qed
next
  case (run_write E len w')
  then show ?thesis using run_ok_write [OF ok op] by simp
next
  case (run_poll w')
  then show ?thesis using run_ok_poll [OF ok op] by simp
next
  case (run_close conn' w')
  then show ?thesis
    using close_calls [OF run_close(3)] channel_close by (simp add: run_ok_def run_abs_def)
qed

lemma run_step_ok:
  assumes step: "run_step Es conn ref s t" and ok: "run_ok lossy conn rid ref s"
    and env: "lossy \<or> (\<forall>E \<in> Es. env_open E)"
  shows "run_ok lossy conn rid ref t \<and>
    (run_abs ref t = run_abs ref s \<or> channel_step lossy (c_id conn) (run_abs ref s) (run_abs ref t))"
proof (cases "rn_open s")
  case True
  then show ?thesis by (rule open_step_ok [OF step ok _ env])
next
  case False
  with closed_step [OF step] show ?thesis by (simp add: run_ok_def run_abs_def)
qed

subsection \<open>The run simulates the channel\<close>

text \<open>A run starts once the preamble is out, with no wakeup on its way.\<close>

definition run_init :: "mg_connection \<Rightarrow> u64 \<Rightarrow> nat \<Rightarrow> 'p run \<Rightarrow> bool" where
  "run_init conn rid ref s \<longleftrightarrow>
     calm conn (rn_world s) \<and> stream_at (rn_world s) conn rid ref S_flush '''' \<and>
     rn_producer s = P_loop \<and> rn_queue s = [] \<and> rn_open s"

definition may_lose :: "'p mg_env set \<Rightarrow> bool" where
  "may_lose Es \<longleftrightarrow> \<not> (\<forall>E \<in> Es. env_open E)"

lemma may_lose_cases: "may_lose Es \<or> (\<forall>E \<in> Es. env_open E)"
  by (auto simp: may_lose_def)

interpretation chan: simulation "run_init conn rid ref" "run_step Es conn ref"
    "run_ok (may_lose Es) conn rid ref" "run_abs ref" "channel_step (may_lose Es) (c_id conn)"
proof unfold_locales
  show "run_ok (may_lose Es) conn rid ref s" if "run_init conn rid ref s" for s
    using that by (intro run_ok_at [of _ _ _ _ S_flush "''''"]) (auto simp: run_init_def intro: phase.ph_idle)
  show "run_ok (may_lose Es) conn rid ref t" if "run_ok (may_lose Es) conn rid ref s" "run_step Es conn ref s t" for s t
    using run_step_ok [OF that(2,1) may_lose_cases] by blast
  show "run_abs ref t = run_abs ref s \<or> channel_step (may_lose Es) (c_id conn) (run_abs ref s) (run_abs ref t)"
    if "run_ok (may_lose Es) conn rid ref s" "run_step Es conn ref s t" for s t
    using run_step_ok [OF that(2,1) may_lose_cases] by blast
qed

lemma channel_prefix:
  assumes "(channel_step lossy c)\<^sup>*\<^sup>* a b"
  shows "\<exists>n. fst (snd b) = fst (snd a) @ map (MgHttpWriteChunk c) (take n (snd (snd a))) \<and>
    snd (snd b) \<in> {drop n (snd (snd a)), []} \<and> (\<not> lossy \<and> fst b \<longrightarrow> snd (snd b) = drop n (snd (snd a)))"
  using assms
proof (induction rule: rtranclp_induct)
  case base
  then show ?case by (intro exI [of _ 0]) simp
next
  case (step b b')
  then obtain n where n: "fst (snd b) = fst (snd a) @ map (MgHttpWriteChunk c) (take n (snd (snd a)))"
    "snd (snd b) \<in> {drop n (snd (snd a)), []}" "\<not> lossy \<and> fst b \<longrightarrow> snd (snd b) = drop n (snd (snd a))" by blast
  from step.hyps(2) show ?case
  proof (cases rule: channel_step.cases)
    case (channel_move out d ds)
    with n have d: "drop n (snd (snd a)) = d # ds" by auto
    note take_drop_Cons [OF d]
    with n channel_move show ?thesis by (intro exI [of _ "Suc n"]) simp
  next
    case (channel_abort out ds)
    with n show ?thesis by (intro exI [of _ n]) simp
  next
    case (channel_close out ds)
    with n show ?thesis by (intro exI [of _ n]) simp
  qed
qed

lemma run_abs_init:
  assumes "run_init conn rid ref s"
  shows "run_abs ref s = (True, net_calls (w_calls (rn_world s)), rn_todo s @ [''''])"
  using assms run_left_at(2) [of s conn rid ref S_flush "''''" False]
  by (simp add: run_init_def run_abs_def run_left_def)

subsection \<open>Progress\<close>

text \<open>How far the producer is from the end of its turn.\<close>

definition state_is :: "nat \<Rightarrow> stream_state \<Rightarrow> 'p run \<Rightarrow> bool" where
  "state_is ref st s \<longleftrightarrow> (case w_strm (rn_world s) ref of None \<Rightarrow> False | Some x \<Rightarrow> as_state x = st)"

definition turn :: "nat \<Rightarrow> 'p run \<Rightarrow> nat" where
  "turn ref s =
     (case rn_producer s of
        P_loop \<Rightarrow> if rn_queue s \<noteq> [] then 2 else if state_is ref S_flush s then 8 else 7
      | P_stop \<Rightarrow> if rn_queue s \<noteq> [] then 1 else 0
      | P_call pc cl \<Rightarrow>
          (case pc of
             SP_move d \<Rightarrow> 6
           | SP_clear \<Rightarrow> 6
           | SP_store st \<Rightarrow> 5
           | SP_wake \<Rightarrow> 4
           | SP_fail \<Rightarrow> 4
           | SP_done \<Rightarrow> if rn_queue s \<noteq> [] then 3 else 9))"

definition finished :: "'p run \<Rightarrow> bool" where
  "finished s \<longleftrightarrow> rn_producer s = P_stop \<and> rn_queue s = []"

lemma turn_le: "turn ref s \<le> 9"
  by (simp add: turn_def split: producer.split stream_pc.split)

lemma state_is_at: "stream_at (rn_world s) conn rid ref st d \<Longrightarrow> state_is ref st' s = (st = st')"
  using stream_at_strm [of "rn_world s" conn rid ref st d] by (simp add: state_is_def)

text \<open>With the environment open there is always a step that brings a run closer to its end.\<close>

lemma run_progress:
  assumes ok: "run_ok False conn rid ref s" and "\<not> finished s"
    and E: "E \<in> Es" "env_open E" "0 < env_io_size E" and op: "rn_open s"
  shows "\<exists>t. run_step Es conn ref s t \<and> rn_open t \<and> (turn ref t < turn ref s \<or> run_left ref t \<noteq> run_left ref s)"
  using ok op
proof (cases rule: run_ok_cases)
  case over
  with assms(2) have p: "rn_producer s = P_call SP_done True" by (simp add: finished_def)
  from run_return [OF this, of Es conn ref] over(2) p op show ?thesis
    by (intro exI [of _ "s\<lparr>rn_producer := P_stop\<rparr>"]) (simp add: turn_def)
next
  case (at st d)
  note strm = stream_at_strm [OF at(1)] and stt = state_is_at [OF at(1)]
  let ?w = "rn_world s"
  have call: "\<exists>t. run_step Es conn ref s t \<and> rn_open t \<and> (turn ref t < turn ref s \<or> run_left ref t \<noteq> run_left ref s)"
    if p: "rn_producer s = P_call pc cl" and pc: "pc \<noteq> SP_done"
      and st: "stream_step E ref pc ?w = Some (pc', w')"
      and less: "turn ref (s\<lparr>rn_world := w', rn_producer := P_call pc' cl,
        rn_queue := rn_queue s @ queued E (drop (length (w_calls ?w)) (w_calls w'))\<rparr>) < turn ref s" for pc cl pc' w'
    using run_call [OF p pc E(1) st, of conn] less op by (intro exI conjI disjI1) auto
  from at(2) show ?thesis
  proof (cases rule: phase.cases)
    case ph_idle
    then consider (ret) "rn_producer s = P_call SP_done False" | (flush) "rn_producer s = P_loop" "st = S_flush"
      | (empty) "rn_producer s = P_loop" "st = S_empty" by blast
    then show ?thesis
    proof cases
      case ret
      from run_return [OF this, of Es conn ref] ret ph_idle stt op show ?thesis
        by (intro exI [of _ "s\<lparr>rn_producer := P_loop\<rparr>"]) (simp add: turn_def)
    next
      case flush
      from stream_at_write_any [OF at(1), of E 0] flush(2) E(3) obtain w' where
        w': "handle_write E (conn\<lparr>c_send_len := 0\<rparr>) ?w = Some w'" "stream_at w' conn rid ref S_empty d" by auto
      have "turn ref (s\<lparr>rn_world := w'\<rparr>) < turn ref s"
        using flush ph_idle stt state_is_at [of "s\<lparr>rn_world := w'\<rparr>" conn rid ref S_empty d] w'(2)
        by (simp add: turn_def)
      with run_write [OF op E(1) w'(1)] op show ?thesis by (intro exI [of _ "s\<lparr>rn_world := w'\<rparr>"]) simp
    next
      case empty
      have wait: "async_stream_wait (\<lambda>i. async_stream_get_state
          \<lparr>as_conn = c_id conn, as_id = rid, as_data = d, as_state = st\<rparr>) 0 = Some True"
        using empty by (simp add: async_stream_get_state_def wait_const wait_done_def)
      show ?thesis
      proof (cases "rn_todo s")
        case Nil
        from run_wait_close [OF empty(1) strm wait this, of Es conn] empty ph_idle stt op show ?thesis
          by (intro exI [of _ "s\<lparr>rn_producer := P_call SP_clear True\<rparr>"]) (simp add: turn_def)
      next
        case (Cons x xs)
        from run_wait_send [OF empty(1) strm wait this, of Es conn] empty ph_idle stt op show ?thesis
          by (intro exI [of _ "s\<lparr>rn_producer := P_call (SP_move x) False, rn_todo := xs\<rparr>"]) (simp add: turn_def)
      qed
    qed
  next
    case (ph_move x)
    then show ?thesis
      using strm call [OF ph_move(1) _ _] by (auto simp: update_strm_def turn_def)
  next
    case ph_clear
    then show ?thesis
      using strm call [OF ph_clear(1) _ _] by (auto simp: update_strm_def turn_def)
  next
    case (ph_store cl)
    then show ?thesis
      using strm call [OF ph_store(1) _ _] by (auto simp: update_strm_def turn_def)
  next
    case (ph_wake cl)
    then show ?thesis
      using strm E(2) call [OF ph_wake(1) _ _] by (auto simp: env_open_def emit_def turn_def)
  next
    case (ph_sent cl)
    have "\<exists>w'. handle_wakeup conn (size_t_bytes rid) ?w = Some w'"
      using handle_wakeup_safe [of ?w "size_t_bytes rid" rid conn] at(1) by (auto simp: stream_at_def)
    then obtain w' where w': "handle_wakeup conn (size_t_bytes rid) ?w = Some w'" by blast
    from ok op have "calm conn ?w" by (simp add: run_ok_def)
    from wakeup_step_ok [OF at(1) this _ ph_sent(1) _ w' op] at ph_sent
    have "channel_step False (c_id conn) (run_abs ref s) (run_abs ref (s\<lparr>rn_world := w', rn_queue := []\<rparr>))" by simp
    then have "run_left ref (s\<lparr>rn_world := w', rn_queue := []\<rparr>) \<noteq> run_left ref s"
      by (cases rule: channel_step.cases) (auto simp: run_abs_def op)
    with run_wakeup [OF op ph_sent(1) w', of Es ref] op show ?thesis
      by (intro exI [of _ "s\<lparr>rn_world := w', rn_queue := []\<rparr>"]) simp
  qed simp_all
qed

text \<open>From every reachable state the run can be brought to its end.\<close>

lemma run_can_finish:
  assumes "run_ok False conn rid ref s" and "rn_open s"
    and env: "\<forall>E \<in> Es. env_open E" "E \<in> Es" "0 < env_io_size E"
  shows "\<exists>t. (run_step Es conn ref)\<^sup>*\<^sup>* s t \<and> finished t \<and> run_ok False conn rid ref t \<and> rn_open t"
  using assms(1,2)
proof (induction "10 * length (run_left ref s) + turn ref s" arbitrary: s rule: less_induct)
  case less
  show ?case
  proof (cases "finished s")
    case True
    with less.prems show ?thesis by blast
  next
    case False
    from run_progress [OF less.prems(1) False env(2) _ env(3) less.prems(2)] env(1,2) obtain t where
      t: "run_step Es conn ref s t" "turn ref t < turn ref s \<or> run_left ref t \<noteq> run_left ref s" "rn_open t" by blast
    from run_step_ok [OF t(1) less.prems(1)] env(1) have
      ok: "run_ok False conn rid ref t" and
      abs: "run_abs ref t = run_abs ref s \<or> channel_step False (c_id conn) (run_abs ref s) (run_abs ref t)" by blast+
    have "run_left ref t = run_left ref s \<or> Suc (length (run_left ref t)) = length (run_left ref s)"
      using abs t(3) less.prems(2) by (auto simp: run_abs_def elim: channel_step.cases)
    with t(2) turn_le [of ref t] have "10 * length (run_left ref t) + turn ref t < 10 * length (run_left ref s) + turn ref s"
      by auto
    from less.hyps [OF this ok t(3)] t(1) show ?thesis
      by (metis converse_rtranclp_into_rtranclp)
  qed
qed

lemma finished_over:
  assumes "run_ok False conn rid ref s" "finished s" "rn_open s"
  shows "stream_over (rn_world s) conn ref \<and> run_left ref s = []"
  using assms(1,3)
proof (cases rule: run_ok_cases)
  case (at st d)
  from at(2) assms(2) show ?thesis by (cases rule: phase.cases) (auto simp: finished_def split: if_splits)
next
  case over
  then show ?thesis using run_left_over by blast
qed

text \<open>At that end everything has been delivered.\<close>

lemma finished_delivered:
  assumes init: "run_init conn rid ref s" and run: "(run_step Es conn ref)\<^sup>*\<^sup>* s u"
    and env: "\<forall>E \<in> Es. env_open E" and u: "finished u" "rn_open u"
  shows "\<exists>x. w_strm (rn_world u) ref = Some x \<and> as_state x = S_completed \<and>
    net_calls (w_calls (rn_world u)) = net_calls (w_calls (rn_world s)) @
      map (MgHttpWriteChunk (c_id conn)) (rn_todo s @ [''''])"
proof -
  have lossless: "may_lose Es = False" using env by (simp add: may_lose_def)
  note ok = chan.init_inv [OF init, of Es]
  from chan.run_inv [OF run ok] have "run_ok False conn rid ref u" by (simp add: lossless)
  note over = finished_over [OF this u]
  from channel_prefix [OF chan.run_simulates [OF run ok]] run_abs_init [OF init] over
  have "net_calls (w_calls (rn_world u)) = net_calls (w_calls (rn_world s)) @
      map (MgHttpWriteChunk (c_id conn)) (rn_todo s @ [''''])"
    using u(2) by (auto simp: run_abs_def lossless)
  with over show ?thesis by (auto simp: stream_over_def)
qed

lemma run_completes:
  assumes "run_init conn rid ref s" and "(run_step Es conn ref)\<^sup>*\<^sup>* s t" and "rn_open t"
    and "\<forall>E \<in> Es. env_open E" and "E \<in> Es" and "0 < env_io_size E"
  shows "\<exists>u x. (run_step Es conn ref)\<^sup>*\<^sup>* t u \<and> finished u \<and>
    w_strm (rn_world u) ref = Some x \<and> as_state x = S_completed \<and>
    net_calls (w_calls (rn_world u)) = net_calls (w_calls (rn_world s)) @
      map (MgHttpWriteChunk (c_id conn)) (rn_todo s @ [''''])"
proof -
  have lossless: "may_lose Es = False" using assms(4) by (simp add: may_lose_def)
  from chan.run_inv [OF assms(2) chan.init_inv [OF assms(1)]] have "run_ok False conn rid ref t" by (simp add: lossless)
  from run_can_finish [OF this assms(3-6)] obtain u where u: "(run_step Es conn ref)\<^sup>*\<^sup>* t u" "finished u" "rn_open u"
    by blast
  have "(run_step Es conn ref)\<^sup>*\<^sup>* s u" using assms(2) u(1) by (rule rtranclp_trans)
  from finished_delivered [OF assms(1) this assms(4) u(2,3)] u(1,2) show ?thesis by blast
qed

end
