(* ===== verification/Channel_Close.thy ===== *)
theory Channel_Close
  imports Channel
begin

text \<open>
  What the close of the connection does to the worker: it is told of the close by the state
  of its stream, unless it is about to store another state over it.
\<close>

subsection \<open>A worker that does not hear of the close\<close>

text \<open>The worker has been allowed to send and has not stored the state of its message yet.\<close>

fun sending :: "producer \<Rightarrow> bool" where
  "sending (P_call (SP_move d) cl) = (\<not> cl)"
| "sending (P_call (SP_store st) cl) = (\<not> cl \<and> st = S_has_data)"
| "sending p = False"

definition stranded :: "nat \<Rightarrow> 'p run \<Rightarrow> bool" where
  "stranded ref s \<longleftrightarrow> \<not> rn_open s \<and>
     (sending (rn_producer s) \<or>
      rn_producer s \<in> {P_call SP_wake False, P_call SP_done False, P_loop} \<and>
        (\<forall>x. w_strm (rn_world s) ref = Some x \<longrightarrow> as_state x = S_has_data))"

lemma stranded_step:
  assumes "run_step Es conn ref s t" "stranded ref s" "\<forall>E \<in> Es. env_open E"
  shows "stranded ref t"
proof -
  from assms(2) have op: "\<not> rn_open s" by (simp add: stranded_def)
  from assms(1) show ?thesis
  proof (cases rule: run_step.cases)
    case (run_call pc cl E pc' w')
    with assms(3) have "env_open E" by blast
    with run_call assms(2) show ?thesis
      by (cases pc) (auto simp: stranded_def env_open_def update_strm_def world_defs split: option.splits if_splits)
  qed (use assms(2) op in \<open>auto simp: stranded_def wait_const wait_done_def async_stream_get_state_def\<close>)
qed

lemma stranded_steps:
  assumes "(run_step Es conn ref)\<^sup>*\<^sup>* s t" "stranded ref s" "\<forall>E \<in> Es. env_open E"
  shows "stranded ref t"
  using assms(1,2) by (induction rule: rtranclp_induct) (auto intro: stranded_step [OF _ _ assms(3)])

lemma stranded_not_stopped: "stranded ref s \<Longrightarrow> rn_producer s \<noteq> P_stop"
  by (auto simp: stranded_def)

subsection \<open>A worker that hears of it\<close>

definition can_stop :: "'p mg_env set \<Rightarrow> mg_connection \<Rightarrow> nat \<Rightarrow> 'p run \<Rightarrow> bool" where
  "can_stop Es conn ref s \<longleftrightarrow> (\<exists>t. (run_step Es conn ref)\<^sup>*\<^sup>* s t \<and> rn_producer t = P_stop)"

lemma can_stop_now: "rn_producer s = P_stop \<Longrightarrow> can_stop Es conn ref s"
  unfolding can_stop_def by blast

lemma can_stop_step: "run_step Es conn ref s t \<Longrightarrow> can_stop Es conn ref t \<Longrightarrow> can_stop Es conn ref s"
  unfolding can_stop_def by (meson converse_rtranclp_into_rtranclp)

text \<open>A call of \<open>close\<close> leads out of the loop; after another call the state has to.\<close>

abbreviation told :: "bool \<Rightarrow> async_stream \<Rightarrow> bool" where
  "told cl x \<equiv> cl \<or> as_state x = S_failed \<or> as_state x = S_completed"

lemma loop_stops:
  assumes "rn_producer s = P_loop" "w_strm (rn_world s) ref = Some x" "told False x"
  shows "can_stop Es conn ref s"
proof -
  from assms(3) have "async_stream_wait (\<lambda>i. async_stream_get_state x) 0 = Some False"
    by (auto simp: wait_const wait_done_def async_stream_get_state_def)
  from can_stop_step [OF run_wait_stop [OF assms(1,2) this]] show ?thesis by (simp add: can_stop_now)
qed

lemma done_stops:
  assumes "rn_producer s = P_call SP_done cl" "w_strm (rn_world s) ref = Some x" "told cl x"
  shows "can_stop Es conn ref s"
  using can_stop_step [OF run_return [OF assms(1)]] assms loop_stops [of "s\<lparr>rn_producer := P_loop\<rparr>" ref x]
  by (cases cl) (simp_all add: can_stop_now)

lemma call_stops:
  assumes "rn_producer s = P_call pc cl" "pc \<noteq> SP_done" "E \<in> Es"
    and "stream_step E ref pc (rn_world s) = Some (pc', w')"
    and "\<And>q. can_stop Es conn ref (s\<lparr>rn_world := w', rn_producer := P_call pc' cl, rn_queue := q\<rparr>)"
  shows "can_stop Es conn ref s"
  by (rule can_stop_step [OF run_call [OF assms(1-4)] assms(5)])

lemma wake_stops:
  assumes "rn_producer s = P_call SP_wake cl" "w_strm (rn_world s) ref = Some x" "told cl x"
    and E: "E \<in> Es" "env_open E"
  shows "can_stop Es conn ref s"
proof (rule call_stops [OF assms(1) _ E(1)])
  show "stream_step E ref SP_wake (rn_world s) =
      Some (SP_done, emit [MgWakeup (as_conn x) (size_t_bytes (as_id x))] (rn_world s))"
    using assms(2) E(2) by (simp add: env_open_def)
qed (use assms(2,3) in \<open>auto intro!: done_stops [where cl = cl and x = x] simp: emit_def\<close>)

lemma close_call_stops:
  assumes "rn_producer s = P_call pc True" "pc = SP_clear \<or> pc = SP_store S_close" "w_strm (rn_world s) ref = Some x"
    and E: "E \<in> Es" "env_open E"
  shows "can_stop Es conn ref s"
proof -
  have store: "can_stop Es conn ref s"
    if "rn_producer s = P_call (SP_store S_close) True" "w_strm (rn_world s) ref = Some x" for s x
    by (rule call_stops [OF that(1) _ E(1)])
      (use that(2) in \<open>auto intro!: wake_stops [OF _ _ _ E, where cl = True] simp: update_strm_def set_strm_def\<close>)
  from assms(2) show ?thesis
  proof
    assume "pc = SP_clear"
    with assms(1) have p: "rn_producer s = P_call SP_clear True" by simp
    show ?thesis
      by (rule call_stops [OF p _ E(1)]) (use assms(3) in \<open>auto intro!: store simp: update_strm_def set_strm_def\<close>)
  qed (use assms(1,3) store in blast)
qed

subsection \<open>Which of the two it is\<close>

lemma close_strm:
  assumes "world_inv w" "handle_close conn w = Some (conn', w')"
  shows "w_strm w' = fail_of async_stream_mark_failed (conn_strm_refs (c_id conn) w) (w_strm w)"
proof -
  from close_tables_eq(1) [OF assms(1), of conn] obtain w1 where
    "close_responses conn w = Some w1" "close_streams conn w1 = Some (closed_tables (c_id conn) w)" by blast
  with assms(2) show ?thesis
    by (auto simp: handle_close_def delete_context_def drop_cert_def closed_tables_def
        split: option.splits if_splits conn_data.splits)
qed

lemma close_returns:
  assumes "world_inv w" "\<exists>k ctx. context_of conn w = Some (k, ctx)"
  shows "\<exists>conn' w'. handle_close conn w = Some (conn', w')"
  using assms handle_close_context [OF assms(1)] handle_close_plain [OF assms(1)] by metis

lemma close_told:
  assumes ok: "run_ok False conn rid ref s" "rn_open s" and run: "handle_close conn (rn_world s) = Some (conn', w')"
  shows "\<exists>x. w_strm w' ref = Some x \<and> told False x"
  using ok
proof (cases rule: run_ok_cases)
  case (at st d)
  then have "world_inv (rn_world s)" "pend_find (pending_streams (rn_world s)) (c_id conn) rid = Some (Some ref)"
    by (auto simp: stream_at_def)
  with conn_strm_refs_failed [OF this] close_strm [OF _ run] show ?thesis by auto
next
  case over
  then have "world_inv (rn_world s)" "\<exists>x. w_strm (rn_world s) ref = Some x \<and> as_state x = S_completed"
    by (auto simp: stream_over_def)
  with close_strm [OF _ run] show ?thesis by (auto simp: fail_of_def)
qed

text \<open>The places a producer can be at when the close comes.\<close>

lemma open_places:
  assumes "run_ok False conn rid ref s" "rn_open s"
  shows "sending (rn_producer s) \<or> rn_producer s \<in> {P_loop, P_stop} \<or>
    (\<exists>cl. rn_producer s \<in> {P_call SP_wake cl, P_call SP_done cl}) \<or>
    rn_producer s \<in> {P_call SP_clear True, P_call (SP_store S_close) True}"
  using assms
proof (cases rule: run_ok_cases)
  case (at st d)
  from at(2) show ?thesis by (cases rule: phase.cases) (auto split: if_splits)
qed auto

lemma close_decides:
  assumes ok: "run_ok False conn rid ref s" "rn_open s" and step: "run_step Es conn ref s t" and closed: "\<not> rn_open t"
    and env: "\<forall>E \<in> Es. env_open E" "E \<in> Es"
  shows "can_stop Es conn ref t \<longleftrightarrow> \<not> sending (rn_producer s)"
proof -
  from step closed ok(2) obtain conn' w' where t: "t = s\<lparr>rn_world := w', rn_open := False\<rparr>"
    and run: "handle_close conn (rn_world s) = Some (conn', w')"
    by (cases rule: run_step.cases) auto
  from env have E: "E \<in> Es" "env_open E" by auto
  from close_told [OF ok run] t obtain x where x: "w_strm (rn_world t) ref = Some x" "told False x" by auto
  show ?thesis
  proof
    assume "can_stop Es conn ref t"
    then show "\<not> sending (rn_producer s)"
      using stranded_steps [OF _ _ env(1)] stranded_not_stopped t
      unfolding can_stop_def by (fastforce simp: stranded_def)
  next
    assume "\<not> sending (rn_producer s)"
    then consider "rn_producer t = P_loop" | "rn_producer t = P_stop" | cl where "rn_producer t = P_call SP_wake cl"
      | cl where "rn_producer t = P_call SP_done cl" | "rn_producer t = P_call SP_clear True"
      | "rn_producer t = P_call (SP_store S_close) True"
      using open_places [OF ok] t by auto
    then show "can_stop Es conn ref t"
      using x E by cases (auto intro: loop_stops can_stop_now wake_stops done_stops close_call_stops)
  qed
qed

end
