(* ===== verification/Channel_Properties.thy ===== *)
theory Channel_Properties
  imports Channel_Close
begin

text \<open>
  Worker and event loop in every interleaving: a streamed answer is a channel that delivers
  its chunks in order and comes to its end.
\<close>

definition demo_run :: "nat world \<Rightarrow> nat run" where
  "demo_run w = \<lparr>rn_world = w, rn_producer = P_loop, rn_todo = [''a'', ''b''], rn_queue = [],
     rn_open = True\<rparr>"

lemma demo_run: "\<exists>w :: nat world. run_init demo_conn 0 2 (demo_run w)"
proof -
  from demo_stream obtain v :: "nat world" where v: "stream_at v demo_conn 0 2 S_empty ''''"
    "\<forall>i. pend_find (pending_responses v) 2 i = None" by blast
  let ?w = "emit [] (set_strm 2 \<lparr>as_conn = c_id demo_conn, as_id = 0, as_data = '''', as_state = S_flush\<rparr> v)"
  have "stream_at ?w demo_conn 0 2 S_flush ''''" by (rule stream_at_set [OF v(1)]) simp_all
  moreover have "calm demo_conn ?w" using v(2) by (simp add: calm_def world_defs demo_conn_def demo_raw_def)
  ultimately have "run_init demo_conn 0 2 (demo_run ?w)" by (simp add: run_init_def demo_run_def)
  then show ?thesis by blast
qed

lemma demo_run_open: "rn_open (demo_run w)"
  by (simp add: demo_run_def)

lemma demo_run_env: "\<forall>E \<in> {demo_env}. env_open E" "demo_env \<in> {demo_env}" "0 < env_io_size demo_env"
    "may_lose {demo_env} = False" "c_id demo_conn = 2"
  by (simp_all add: env_open_def demo_env_def may_lose_def demo_conn_def demo_raw_def)

text \<open>
  C10. In every interleaving of the producer loop with wakeups, writes, polls and the close
  of the connection, each step either does not show or moves exactly the next chunk from the
  producer to the wire; only the close, or a wakeup that fails or finds the manager gone, gives
  up what is left.
\<close>
theorem async_stream_refines_channel:
  assumes "run_init conn rid ref s" and "(run_step Es conn ref)\<^sup>*\<^sup>* s t" and "run_step Es conn ref t u"
  shows "run_abs ref u = run_abs ref t \<or>
    channel_step (may_lose Es) (c_id conn) (run_abs ref t) (run_abs ref u)"
  by (rule chan.reach_simulates [OF assms])

theorem async_stream_refines_channel_witness:
  "\<exists>s u :: nat run. run_init demo_conn 0 2 s \<and> run_step {demo_env} demo_conn 2 s u \<and>
    (run_abs 2 u = run_abs 2 s \<or> channel_step False 2 (run_abs 2 s) (run_abs 2 u))"
proof -
  from demo_run obtain w :: "nat world" where init: "run_init demo_conn 0 2 (demo_run w)" by blast
  then have "stream_at w demo_conn 0 2 S_flush ''''" by (simp add: run_init_def demo_run_def)
  from stream_at_write_any [OF this, of demo_env 0] obtain w' where
    "handle_write demo_env (demo_conn\<lparr>c_send_len := 0\<rparr>) (rn_world (demo_run w)) = Some w'" by (auto simp: demo_run_def)
  from run_write [OF demo_run_open demo_run_env(2) this, of 2]
  have step: "run_step {demo_env} demo_conn 2 (demo_run w) ((demo_run w)\<lparr>rn_world := w'\<rparr>)" .
  from async_stream_refines_channel [OF init rtranclp.rtrancl_refl step] init step demo_run_env(4,5) show ?thesis by metis
qed

text \<open>
  C9. Whatever fails on the way, what the client has received of a streamed answer is at every
  moment a prefix of the producer's chunks, in order, none of them twice, with the terminal
  chunk after the last.
\<close>
theorem chunks_in_order:
  assumes "run_init conn rid ref s" and "(run_step Es conn ref)\<^sup>*\<^sup>* s t"
  shows "\<exists>n. net_calls (w_calls (rn_world t)) = net_calls (w_calls (rn_world s)) @
    map (MgHttpWriteChunk (c_id conn)) (take n (rn_todo s @ ['''']))"
  using channel_prefix [OF chan.run_simulates [OF assms(2) chan.init_inv [OF assms(1)]]] run_abs_init [OF assms(1)]
  by (auto simp: run_abs_def)

theorem chunks_in_order_witness:
  "\<exists>(s :: nat run) t n. (run_step {demo_env} demo_conn 2)\<^sup>*\<^sup>* s t \<and> finished t \<and>
    net_calls (w_calls (rn_world t)) =
      net_calls (w_calls (rn_world s)) @ map (MgHttpWriteChunk 2) (take n [''a'', ''b'', ''''])"
proof -
  from demo_run obtain w :: "nat world" where init: "run_init demo_conn 0 2 (demo_run w)" by blast
  from chan.init_inv [OF init, of "{demo_env}"] run_can_finish [OF _ demo_run_open demo_run_env(1-3), of demo_conn 0 2 w]
  obtain t where t: "(run_step {demo_env} demo_conn 2)\<^sup>*\<^sup>* (demo_run w) t" "finished t"
    by (auto simp: demo_run_env(4))
  from chunks_in_order [OF init t(1)] obtain n where
    "net_calls (w_calls (rn_world t)) = net_calls (w_calls w) @ map (MgHttpWriteChunk 2) (take n [''a'', ''b'', ''''])"
    by (auto simp: demo_run_def demo_run_env(5))
  with t show ?thesis by (intro exI [of _ "demo_run w"] exI [of _ t] exI [of _ n]) (simp add: demo_run_def)
qed

text \<open>
  While the connection is open, the manager lives and wakeups succeed, a streamed answer
  never gets stuck: from every state its threads can reach, they can go on to an end where the
  producer has left its loop, the client has received all chunks and the terminal one, and the
  stream is completed.
\<close>
theorem async_stream_completes:
  assumes "run_init conn rid ref s" and "(run_step Es conn ref)\<^sup>*\<^sup>* s t" and "rn_open t"
    and "\<forall>E \<in> Es. env_open E" and "E \<in> Es" and "0 < env_io_size E"
  shows "\<exists>u x. (run_step Es conn ref)\<^sup>*\<^sup>* t u \<and> finished u \<and>
    w_strm (rn_world u) ref = Some x \<and> as_state x = S_completed \<and>
    net_calls (w_calls (rn_world u)) = net_calls (w_calls (rn_world s)) @
      map (MgHttpWriteChunk (c_id conn)) (rn_todo s @ [''''])"
  by (rule run_completes [OF assms])

theorem async_stream_completes_witness:
  "\<exists>(s :: nat run) u. (run_step {demo_env} demo_conn 2)\<^sup>*\<^sup>* s u \<and> finished u \<and>
    net_calls (w_calls (rn_world u)) = net_calls (w_calls (rn_world s)) @
      [MgHttpWriteChunk 2 ''a'', MgHttpWriteChunk 2 ''b'', MgHttpWriteChunk 2 '''']"
proof -
  from demo_run obtain w :: "nat world" where init: "run_init demo_conn 0 2 (demo_run w)" by blast
  from async_stream_completes [OF init rtranclp.rtrancl_refl demo_run_open demo_run_env(1-3)] obtain u where
    "(run_step {demo_env} demo_conn 2)\<^sup>*\<^sup>* (demo_run w) u" "finished u"
    "net_calls (w_calls (rn_world u)) = net_calls (w_calls w) @
      [MgHttpWriteChunk 2 ''a'', MgHttpWriteChunk 2 ''b'', MgHttpWriteChunk 2 '''']"
    by (auto simp: demo_run_def demo_run_env(5))
  then show ?thesis by (intro exI [of _ "demo_run w"] exI [of _ u]) (simp add: demo_run_def)
qed



end
