(* ===== verification/Races.thy ===== *)
theory Races
  imports Async_Flow Small_Steps
begin

text \<open>
  What happens when the event loop runs in the middle of an operation of a worker. The
  operation wakes the loop before it stores the state the loop is going to look at, and
  \<open>stream\<close> reads \<open>m_stream\<close> again after that.
\<close>

subsection \<open>The steps of \<open>stream\<close>\<close>

text \<open>The response of a request whose handler has kept it, with headers already set.\<close>

definition waiting :: "'p world \<Rightarrow> mg_connection \<Rightarrow> u64 \<Rightarrow> nat \<Rightarrow> headers \<Rightarrow> bool" where
  "waiting w conn rid ref h \<longleftrightarrow>
     world_inv w \<and> pend_find (pending_responses w) (c_id conn) rid = Some ref \<and>
     w_resp w ref = Some ((async_response_new (c_id conn) rid)\<lparr>ar_headers := h\<rparr>) \<and>
     pend_find (pending_streams w) (c_id conn) rid = None"

definition stream_headers :: "string \<Rightarrow> headers \<Rightarrow> headers" where
  "stream_headers encoding h = headers_set ''Transfer-Encoding'' encoding (headers_remove ''Content-Length'' h)"

text \<open>The world once \<open>stream\<close> has called \<open>mg_wakeup\<close>, its state still pending.\<close>

definition woken :: "mg_connection \<Rightarrow> u64 \<Rightarrow> nat \<Rightarrow> int \<Rightarrow> string \<Rightarrow> headers \<Rightarrow> 'p world \<Rightarrow> 'p world" where
  "woken conn rid ref code encoding h w =
     emit [MgWakeup (c_id conn) (size_t_bytes rid)]
       (set_strm (w_next w) (async_stream_new (c_id conn) rid
           (format_preamble code (headers_format False (stream_headers encoding h))))
         ((set_resp ref ((async_response_new (c_id conn) rid)
             \<lparr>ar_headers := stream_headers encoding h, ar_stream := Some (w_next w)\<rparr>) w)\<lparr>w_next := Suc (w_next w)\<rparr>))"

lemma stream_to_wakeup:
  assumes "waiting w conn rid ref h" "env_open E"
  shows "run_steps (response_step E ref) 3 (RP_guard (AStream code encoding)) w =
    Some (RP_store R_streaming, woken conn rid ref code encoding h w)"
  using assms
  by (simp add: waiting_def env_open_def numeral_eq_Suc woken_def stream_headers_def async_response_new_def
      world_defs Let_def)

lemma woken_parts:
  fixes w :: "'p world"
  assumes "waiting w conn rid ref h" and "v = woken conn rid ref code encoding h w"
  shows "pending_responses v = pending_responses w" "pending_streams v = pending_streams w" "w_ctx v = w_ctx w"
    "w_strm v (w_next w) = Some (async_stream_new (c_id conn) rid
       (format_preamble code (headers_format False (stream_headers encoding h))))"
    "w_resp v ref = Some ((async_response_new (c_id conn) rid)
       \<lparr>ar_headers := stream_headers encoding h, ar_stream := Some (w_next w)\<rparr>)"
    "w_calls v = w_calls w @ [MgWakeup (c_id conn) (size_t_bytes rid)]"
  by (simp_all add: assms(2) woken_def world_defs)

text \<open>Storing any state over it keeps the world consistent.\<close>

lemma woken_inv:
  assumes W: "waiting w conn rid ref h" and v: "v = woken conn rid ref code encoding h w"
  shows "world_inv (set_resp ref ((async_response_new (c_id conn) rid)
       \<lparr>ar_headers := stream_headers encoding h, ar_stream := Some (w_next w), ar_state := st\<rparr>) v)"
    (is "world_inv ?u")
proof -
  from W have inv: "world_inv w" by (simp add: waiting_def)
  from W have r: "w_resp w ref = Some ((async_response_new (c_id conn) rid)\<lparr>ar_headers := h\<rparr>)" by (simp add: waiting_def)
  have fresh: "w_strm w (w_next w) = None" "ref < w_next w"
    using world_invD(5) [OF inv] r by (auto simp: fresh_ok_def not_le [symmetric])
  show ?thesis
  proof (rule world_inv_kept [OF inv])
    show "w_ep ?u = w_ep w" by (simp add: v woken_def world_defs)
    show kept: "strm_kept w ?u" using fresh by (auto simp: strm_kept_def v woken_def world_defs)
    show "fresh_ok ?u" using world_invD(5) [OF inv] fresh by (auto simp: fresh_ok_def v woken_def world_defs)
    show "list_all wakeup_ok (w_calls ?u)"
      using world_invD(6) [OF inv] by (auto simp: v woken_def world_defs)
    show "resp_ok ?u c i x" if "resp_ok w c i x" for c i x
    proof (cases "x = ref")
      case True
      with that r show ?thesis
        by (auto simp: resp_ok_def strm_ok_def v woken_def world_defs async_response_new_def async_stream_new_def)
    next
      case False
      with that kept show ?thesis by (auto intro: resp_ok_kept simp: v woken_def world_defs)
    qed
  qed
qed

lemma woken_inv_pending:
  assumes "waiting w conn rid ref h"
  shows "world_inv (woken conn rid ref code encoding h w)"
proof -
  let ?r = "(async_response_new (c_id conn) rid)
       \<lparr>ar_headers := stream_headers encoding h, ar_stream := Some (w_next w), ar_state := R_pending\<rparr>"
  let ?v = "woken conn rid ref code encoding h w"
  have "w_resp ?v ref = Some ?r"
    using woken_parts(5) [OF assms refl, where code = code and encoding = encoding]
    by (simp add: async_response_new_def)
  then have "set_resp ref ?r ?v = ?v" by (simp add: set_resp_def fun_upd_idem)
  with woken_inv [OF assms refl, where st = R_pending and code = code and encoding = encoding] show ?thesis by simp
qed

subsection \<open>The loop is faster than the store\<close>

lemma race_reply:
  assumes W: "waiting w conn rid ref h"
  shows "\<exists>w2. handle_wakeup conn (size_t_bytes rid) (woken conn rid ref code encoding h w) = Some w2 \<and>
    w_calls w2 = w_calls w @ [MgWakeup (c_id conn) (size_t_bytes rid), MgHttpReply (c_id conn) (-1) '''' ''''] \<and>
    w_resp w2 ref = Some ((async_response_new (c_id conn) rid)
      \<lparr>ar_headers := stream_headers encoding h, ar_stream := Some (w_next w), ar_state := R_completed\<rparr>) \<and>
    w_strm w2 (w_next w) = Some (async_stream_new (c_id conn) rid
      (format_preamble code (headers_format False (stream_headers encoding h)))) \<and>
    pend_find (pending_responses w2) (c_id conn) rid = None \<and> pend_find (pending_streams w2) (c_id conn) rid = None"
proof -
  let ?v = "woken conn rid ref code encoding h w"
  note P = woken_parts [OF W refl, where code = code and encoding = encoding]
  have "pend_find (pending_responses ?v) (c_id conn) rid = Some ref" "pend_find (pending_streams ?v) (c_id conn) rid = None"
    using W P(1,2) by (simp_all add: waiting_def)
  from handle_response_reply [OF woken_inv_pending [OF W] this(1) P(5) _ this(2)] this(2) P(4,6)
  show ?thesis by (auto simp: async_response_new_def c_str_def)
qed

lemma race_store:
  assumes "w_resp w ref = Some r"
  shows "run_steps (response_step E ref) 1 (RP_store R_streaming) w =
      Some (RP_return, set_resp ref (r\<lparr>ar_state := R_streaming\<rparr>) w)"
    and "run_steps (response_step E ref) 2 (RP_store R_streaming) w =
      Some (RP_done (ar_stream r), set_resp ref (r\<lparr>ar_state := R_streaming\<rparr>) w)"
  using assms by (simp_all add: update_resp_def set_resp_def numeral_2_eq_2)

subsection \<open>Two workers on one response\<close>

text \<open>
  The test of the state and the store at the end of \<open>send\<close> are not one access: two workers that
  share the response can both find it pending. The first to wake the loop is answered; the
  wakeup of the other finds the request forgotten, and two error replies follow the answer.
\<close>

lemma send_after_guard:
  assumes "w_resp w ref = Some r" "env_open E"
  shows "run_steps (response_step E ref) 3 (RP_fill (ASend code body)) w =
    Some (RP_done None, set_resp ref (r\<lparr>ar_payload := \<lparr>pl_code = code, pl_headers = headers_format False (ar_headers r),
        pl_body = body\<rparr>, ar_state := R_sending\<rparr>) (emit [MgWakeup (ar_conn r) (size_t_bytes (ar_id r))] w))"
  using assms by (simp add: env_open_def numeral_eq_Suc update_resp_def world_defs Let_def)

lemma two_senders:
  assumes W: "waiting w conn rid ref h" and E: "env_open E"
  shows "\<exists>w1 w2 w3 w4.
    run_steps (response_step E ref) 1 (RP_guard (ASend a body_a)) w = Some (RP_fill (ASend a body_a), w) \<and>
    run_steps (response_step E ref) 4 (RP_guard (ASend b body_b)) w = Some (RP_done None, w1) \<and>
    handle_wakeup conn (size_t_bytes rid) w1 = Some w2 \<and>
    run_steps (response_step E ref) 3 (RP_fill (ASend a body_a)) w2 = Some (RP_done None, w3) \<and>
    handle_wakeup conn (size_t_bytes rid) w3 = Some w4 \<and>
    net_calls (w_calls w4) = net_calls (w_calls w) @
      [MgHttpReply (c_id conn) b (c_str (headers_format False h)) body_b,
       internal_server_error_reply conn, internal_server_error_reply conn]"
proof -
  let ?reply = "MgHttpReply (c_id conn) b (c_str (headers_format False h)) body_b"
  let ?r = "(async_response_new (c_id conn) rid)\<lparr>ar_headers := h\<rparr>"
  let ?s = "?r\<lparr>ar_payload := \<lparr>pl_code = b, pl_headers = headers_format False h, pl_body = body_b\<rparr>, ar_state := R_sending\<rparr>"
  let ?wake = "MgWakeup (c_id conn) (size_t_bytes rid)"
  define w1 where "w1 = set_resp ref ?s (emit [?wake] w)"
  from W have r: "w_resp w ref = Some ?r" and inv: "world_inv w"
    and p: "pend_find (pending_responses w) (c_id conn) rid = Some ref"
    and ns: "pend_find (pending_streams w) (c_id conn) rid = None" by (simp_all add: waiting_def)
  have guard: "run_steps (response_step E ref) 1 (RP_guard (ASend c d)) w = Some (RP_fill (ASend c d), w)" for c d
    using r by (simp add: async_response_new_def)
  have first: "run_steps (response_step E ref) (1 + 3) (RP_guard (ASend b body_b)) w = Some (RP_done None, w1)"
    unfolding run_steps_add guard using send_after_guard [OF r E]
    by (simp add: w1_def async_response_new_def)
  have "run_steps (response_step E ref) (4 + 1) (RP_guard (ASend b body_b)) w = Some (RP_done None, w1)"
    unfolding run_steps_add using first by simp
  then have "response_op E ref (ASend b body_b) w = Some (w1, None)" by (auto simp: response_steps)
  then have inv1: "world_inv w1" by (rule response_op_inv(1) [OF inv])
  from answer_delivered_once [OF inv1, of conn rid ref ?s] p ns obtain w2 where
    loop: "handle_wakeup conn (size_t_bytes rid) w1 = Some w2"
    and w2: "w_calls w2 = w_calls w @ [?wake, ?reply]" "w_resp w2 ref = Some (?s\<lparr>ar_state := R_completed\<rparr>)"
      "pend_find (pending_responses w2) (c_id conn) rid = None" "pend_find (pending_streams w2) (c_id conn) rid = None"
    by (auto simp: w1_def world_defs)
  note second = send_after_guard [OF w2(2) E, of a body_a]
  define w3 where "w3 = snd (the (run_steps (response_step E ref) 3 (RP_fill (ASend a body_a)) w2))"
  have w3: "w_calls w3 = w_calls w2 @ [?wake]" "pending_responses w3 = pending_responses w2"
    "pending_streams w3 = pending_streams w2"
    by (simp_all add: w3_def second world_defs async_response_new_def)
  have "run_steps (response_step E ref) 3 (RP_fill (ASend a body_a)) w2 = Some (RP_done None, w3)"
    by (simp add: w3_def second)
  moreover have "handle_wakeup conn (size_t_bytes rid) w3 =
      Some (emit [internal_server_error_reply conn, internal_server_error_reply conn] w3)"
    using w2(3,4) by (intro stale_wakeup_eq) (simp_all add: w3)
  moreover have "\<not> is_wakeup (internal_server_error_reply conn)" by (simp add: internal_server_error_reply_def)
  then have "net_calls (w_calls (emit [internal_server_error_reply conn, internal_server_error_reply conn] w3)) =
      net_calls (w_calls w) @ [?reply, internal_server_error_reply conn, internal_server_error_reply conn]"
    by (simp add: w2(1) w3(1) emit_def)
  moreover have "run_steps (response_step E ref) 4 (RP_guard (ASend b body_b)) w = Some (RP_done None, w1)"
    using first by (simp only: numeral_plus_numeral add_num_simps one_plus_numeral)
  ultimately show ?thesis using guard loop by blast
qed

subsection \<open>Properties\<close>


text \<open>
  C26. When the event loop takes the wakeup of \<open>async_response::stream\<close> before the worker has
  stored the state, it answers the request with the status and the empty payload the response
  was created with and forgets it. The worker still gets a stream; it was never registered,
  and as its state stays \<open>start\<close> the first \<open>wait\<close> on it does not return.
\<close>
theorem stream_races_with_loop:
  assumes "waiting w conn rid ref h" and "env_open E"
  shows "\<exists>w1 w2 w3 s.
    run_steps (response_step E ref) 3 (RP_guard (AStream code encoding)) w = Some (RP_store R_streaming, w1) \<and>
    handle_wakeup conn (size_t_bytes rid) w1 = Some w2 \<and>
    net_calls (w_calls w2) = net_calls (w_calls w) @ [MgHttpReply (c_id conn) (-1) '''' ''''] \<and>
    run_steps (response_step E ref) 2 (RP_store R_streaming) w2 = Some (RP_done (Some (w_next w)), w3) \<and>
    pend_find (pending_responses w3) (c_id conn) rid = None \<and>
    pend_find (pending_streams w3) (c_id conn) rid = None \<and>
    w_strm w3 (w_next w) = Some s \<and> as_state s = S_start \<and>
    async_stream_wait (\<lambda>i. as_state s) 0 = None"
proof -
  let ?r = "(async_response_new (c_id conn) rid)
      \<lparr>ar_headers := stream_headers encoding h, ar_stream := Some (w_next w), ar_state := R_completed\<rparr>"
  let ?s = "async_stream_new (c_id conn) rid (format_preamble code (headers_format False (stream_headers encoding h)))"
  from race_reply [OF assms(1), of code encoding] obtain w2 where
    run: "handle_wakeup conn (size_t_bytes rid) (woken conn rid ref code encoding h w) = Some w2"
    and w2: "w_calls w2 = w_calls w @ [MgWakeup (c_id conn) (size_t_bytes rid), MgHttpReply (c_id conn) (-1) '''' '''']"
      "w_resp w2 ref = Some ?r" "w_strm w2 (w_next w) = Some ?s"
      "pend_find (pending_responses w2) (c_id conn) rid = None" "pend_find (pending_streams w2) (c_id conn) rid = None"
    by blast
  let ?w3 = "set_resp ref (?r\<lparr>ar_state := R_streaming\<rparr>) w2"
  have "run_steps (response_step E ref) 2 (RP_store R_streaming) w2 = Some (RP_done (Some (w_next w)), ?w3)"
    using race_store(2) [OF w2(2)] by simp
  moreover have "async_stream_wait (\<lambda>i. as_state ?s) 0 = None"
    by (simp add: async_stream_new_def wait_never wait_done_def)
  moreover have "as_state ?s = S_start" by (simp add: async_stream_new_def)
  ultimately show ?thesis
    using stream_to_wakeup [OF assms] run w2
    by (intro exI [of _ "woken conn rid ref code encoding h w"] exI [of _ w2] exI [of _ ?w3] exI [of _ ?s])
      (simp add: set_resp_def)
qed

text \<open>
  C27. When the event loop takes that wakeup after the state is stored but before \<open>stream\<close>
  returns, it moves the pointer out of the response and registers the stream, and \<open>stream\<close>
  returns null: the client has got the head of an answer nobody can continue, and a worker
  that uses the pointer, as the README's does, dereferences null.
\<close>
theorem stream_returns_null:
  assumes "waiting w conn rid ref h" and "env_open E"
    and "context_of conn w = Some (k, ctx)" and "rc_stream ctx = None"
  shows "\<exists>w1 w2 preamble.
    run_steps (response_step E ref) 4 (RP_guard (AStream code encoding)) w = Some (RP_return, w1) \<and>
    handle_wakeup conn (size_t_bytes rid) w1 = Some w2 \<and>
    net_calls (w_calls w2) = net_calls (w_calls w) @ [MgSend (c_id conn) preamble] \<and>
    stream_at w2 conn rid (w_next w) S_flush '''' \<and>
    response_step E ref RP_return w2 = Some (RP_done None, w2)"
proof -
  let ?v = "woken conn rid ref code encoding h w"
  let ?r = "(async_response_new (c_id conn) rid)
      \<lparr>ar_headers := stream_headers encoding h, ar_stream := Some (w_next w), ar_state := R_streaming\<rparr>"
  let ?w1 = "set_resp ref ?r ?v"
  let ?pre = "format_preamble code (headers_format False (stream_headers encoding h))"
  note P = woken_parts [OF assms(1) refl, where code = code and encoding = encoding]
  have "run_steps (response_step E ref) (3 + 1) (RP_guard (AStream code encoding)) w = Some (RP_return, ?w1)"
    unfolding run_steps_add stream_to_wakeup [OF assms(1,2)] using race_store(1) [OF P(5)]
    by (simp add: async_response_new_def)
  then have to_return: "run_steps (response_step E ref) 4 (RP_guard (AStream code encoding)) w = Some (RP_return, ?w1)"
    by simp
  have "pend_find (pending_responses ?w1) (c_id conn) rid = Some ref"
    "pend_find (pending_streams ?w1) (c_id conn) rid = None" "context_of conn ?w1 = Some (k, ctx)"
    using assms(1,3) P(1,2,3) context_of_same [of ?w1 w conn] by (simp_all add: waiting_def set_resp_def)
  with wakeup_starts_stream [OF woken_inv [OF assms(1) refl, where st = R_streaming and code = code and encoding = encoding],
      of conn rid ref ?r "w_next w" ?pre k ctx] P(4) assms(4)
  obtain w2 where "handle_wakeup conn (size_t_bytes rid) ?w1 = Some w2" "stream_at w2 conn rid (w_next w) S_flush ''''"
    "w_calls w2 = w_calls ?w1 @ [MgSend (c_id conn) ?pre]" "w_resp w2 = (w_resp ?w1)(ref \<mapsto> ?r\<lparr>ar_stream := None\<rparr>)"
    by (auto simp: set_resp_def async_stream_new_def)
  with to_return P(6) show ?thesis
    by (intro exI [of _ ?w1] exI [of _ w2] exI [of _ ?pre]) (simp add: set_resp_def)
qed

text \<open>A request of the demonstration that waits for its answer.\<close>

lemma demo_waiting:
  "waiting (fst (add_pending demo_conn demo_world1)) demo_conn 0 1 headers_new"
  "context_of demo_conn (fst (add_pending demo_conn demo_world1)) = Some (0, remote_context_new demo_env 0 (demo_raw 2))"
  using add_pending_parts [OF demo_world1_inv, of demo_conn] demo_async_invoke context_of_same [of _ demo_world1 demo_conn]
  by (simp_all add: waiting_def async_response_new_def demo_conn_def demo_raw_def pend_find_def)

theorem stream_races_with_loop_witness:
  "\<exists>(w1 :: nat world) w2. handle_wakeup demo_conn (size_t_bytes 0) w1 = Some w2 \<and>
    net_calls (w_calls w2) = [MgHttpReply 2 (-1) '''' '''']"
  using stream_races_with_loop [OF demo_waiting(1) demo_async_invoke(5), of 200 "''chunked''"]
    add_pending_parts(6) [OF demo_world1_inv, of demo_conn] demo_async_invoke(9)
  by (auto simp: demo_conn_def demo_raw_def)

theorem stream_returns_null_witness:
  "\<exists>(w1 :: nat world) w2. handle_wakeup demo_conn (size_t_bytes 0) w1 = Some w2 \<and>
    response_step demo_env 1 RP_return w2 = Some (RP_done None, w2)"
  using stream_returns_null [OF demo_waiting(1) demo_async_invoke(5) demo_waiting(2), of 200 "''chunked''"]
  by (auto simp: remote_context_new_def)

end
