(* ===== verification/Ownership.thy ===== *)
theory Ownership
  imports System_Safety
begin

text \<open>
  Who owns what: the context of a connection is held by the connection's \<open>fn_data\<close> alone and
  freed when it closes, and the record of a peer certificate by the context alone; requests
  have weak pointers to it. No object is left without an owner and none has two.
\<close>

subsection \<open>Certificates\<close>

definition owns :: "'p world \<Rightarrow> nat \<Rightarrow> nat \<Rightarrow> bool" where
  "owns w k p \<longleftrightarrow> (\<exists>ctx. w_ctx w k = Some ctx \<and> rc_tls_cert ctx = Some p)"

definition certs_ok :: "'p world \<Rightarrow> bool" where
  "certs_ok w \<longleftrightarrow>
     (\<forall>p. w_cert w p \<noteq> None \<longleftrightarrow> (\<exists>k. owns w k p)) \<and>
     (\<forall>k k' p. owns w k p \<longrightarrow> owns w k' p \<longrightarrow> k = k')"

text \<open>A step that leaves every certificate with its context.\<close>

definition certs_kept :: "'p world \<Rightarrow> 'p world \<Rightarrow> bool" where
  "certs_kept w w' \<longleftrightarrow>
     w_cert w' = w_cert w \<and> (\<forall>k. map_option rc_tls_cert (w_ctx w' k) = map_option rc_tls_cert (w_ctx w k))"

lemma certs_kept_same: "w_ctx w' = w_ctx w \<Longrightarrow> w_cert w' = w_cert w \<Longrightarrow> certs_kept w w'"
  by (simp add: certs_kept_def)

lemma certs_kept_refl [simp]: "certs_kept w w"
  by (simp add: certs_kept_def)

lemma certs_keptD:
  assumes "certs_kept w w'"
  shows "w_cert w' = w_cert w" and "w_ctx w' k = None \<longleftrightarrow> w_ctx w k = None" and "owns w' k p \<longleftrightarrow> owns w k p"
proof -
  from assms have *: "map_option rc_tls_cert (w_ctx w' k) = map_option rc_tls_cert (w_ctx w k)"
    by (simp add: certs_kept_def)
  from assms show "w_cert w' = w_cert w" by (simp add: certs_kept_def)
  show "w_ctx w' k = None \<longleftrightarrow> w_ctx w k = None" "owns w' k p \<longleftrightarrow> owns w k p"
    using * by (cases "w_ctx w k"; cases "w_ctx w' k"; auto simp: owns_def)+
qed

lemma certs_kept_ok: "certs_ok w \<Longrightarrow> certs_kept w w' \<Longrightarrow> certs_ok w'"
  unfolding certs_ok_def using certs_keptD by metis

text \<open>The changes a certificate sees: its context gets a new one, or goes.\<close>

lemma certs_ok_new_context:
  assumes "certs_ok w" "w_ctx w k = None" "rc_tls_cert ctx = None"
    and "w_ctx w' = (w_ctx w)(k \<mapsto> ctx)" "w_cert w' = w_cert w"
  shows "certs_ok w'"
proof -
  have "owns w' k' p \<longleftrightarrow> owns w k' p" for k' p using assms(2-4) by (auto simp: owns_def)
  with assms(1,5) show ?thesis by (simp add: certs_ok_def)
qed

lemma certs_ok_drop_context:
  assumes "certs_ok w" "w_ctx w k = Some ctx"
    and "w_ctx w' = (w_ctx w)(k := None)"
    and "\<And>p. w_cert w' p = (if rc_tls_cert ctx = Some p then None else w_cert w p)"
  shows "certs_ok w'"
proof -
  have "owns w' k' p \<longleftrightarrow> owns w k' p \<and> k' \<noteq> k" for k' p using assms(3) by (auto simp: owns_def)
  moreover have "owns w k p \<longleftrightarrow> rc_tls_cert ctx = Some p" for p using assms(2) by (simp add: owns_def)
  ultimately show ?thesis using assms(1,4) unfolding certs_ok_def by (metis option.distinct(1))
qed

lemma certs_ok_new_cert:
  assumes "certs_ok w" "w_ctx w k = Some ctx" "\<And>k'. \<not> owns w k' c"
    and "w_ctx w' = (w_ctx w)(k \<mapsto> ctx\<lparr>rc_tls_cert := Some c\<rparr>)"
    and "\<And>p. w_cert w' p = (if p = c then Some info else if rc_tls_cert ctx = Some p then None else w_cert w p)"
  shows "certs_ok w'"
proof -
  have own: "owns w' k' p \<longleftrightarrow> (if k' = k then p = c else owns w k' p)" for k' p
    using assms(4) by (auto simp: owns_def)
  have old: "owns w k p \<longleftrightarrow> rc_tls_cert ctx = Some p" for p using assms(2) by (simp add: owns_def)
  have one: "k1 = k2" if "owns w k1 p" "owns w k2 p" for k1 k2 p using assms(1) that by (simp add: certs_ok_def)
  have live: "w_cert w p \<noteq> None \<longleftrightarrow> (\<exists>k. owns w k p)" for p using assms(1) unfolding certs_ok_def by blast
  have "w_cert w' p \<noteq> None \<longleftrightarrow> (\<exists>k. owns w' k p)" for p
  proof (cases "p = c")
    case True
    then show ?thesis using own [of k c] assms(5) [of c] by auto
  next
    case False
    then have "w_cert w' p \<noteq> None \<longleftrightarrow> \<not> owns w k p \<and> (\<exists>k'. owns w k' p)"
      using assms(5) [of p] old [of p] live [of p] by auto
    also have "\<dots> \<longleftrightarrow> (\<exists>k'. k' \<noteq> k \<and> owns w k' p)" using one [of k p] by metis
    also have "\<dots> \<longleftrightarrow> (\<exists>k'. owns w' k' p)" using own False by auto
    finally show ?thesis .
  qed
  moreover have "k1 = k2" if "owns w' k1 p" "owns w' k2 p" for k1 k2 p
    using that own one assms(3) by metis
  ultimately show ?thesis by (simp add: certs_ok_def)
qed

subsection \<open>Handlers that leave them alone\<close>

lemma poll_frame: "handle_poll conn w = Some w' \<Longrightarrow> w_ctx w' = w_ctx w \<and> w_cert w' = w_cert w"
  by (auto simp: handle_poll_def world_defs split: option.splits)

lemma poll_certs: "handle_poll conn w = Some w' \<Longrightarrow> certs_kept w w'"
  by (auto dest: poll_frame intro: certs_kept_same)

lemma stream_frame: "handle_stream conn data w = Some (b, w') \<Longrightarrow> w_ctx w' = w_ctx w \<and> w_cert w' = w_cert w"
  by (auto simp: handle_stream_def async_stream_get_data_def world_defs Let_def
      split: option.splits stream_state.splits)

lemma response_frame: "handle_response conn data w = Some (b, w') \<Longrightarrow> w_ctx w' = w_ctx w \<and> w_cert w' = w_cert w"
  by (auto simp: handle_response_def world_defs Let_def async_response_get_stream_def
      dest!: stream_frame split: option.splits if_splits)

lemma wakeup_frame: "handle_wakeup conn data w = Some w' \<Longrightarrow> w_ctx w' = w_ctx w \<and> w_cert w' = w_cert w"
  by (auto simp: handle_wakeup_def emit_def dest!: stream_frame response_frame split: option.splits if_splits)

lemma wakeup_certs: "handle_wakeup conn data w = Some w' \<Longrightarrow> certs_kept w w'"
  by (auto dest: wakeup_frame intro: certs_kept_same)

lemma response_ops_certs: "response_ops E ref ops w = Some w' \<Longrightarrow> w_ctx w' = w_ctx w \<and> w_cert w' = w_cert w"
proof (induction ops arbitrary: w)
  case (Cons op ops)
  then obtain w1 res where "response_op E ref op w = Some (w1, res)" "response_ops E ref ops w1 = Some w'"
    by (auto split: option.splits)
  with Cons.IH response_op_frame show ?case by metis
qed simp

lemma set_ctx_certs:
  assumes "w_ctx w k = Some ctx" "rc_tls_cert ctx' = rc_tls_cert ctx"
    and "w_ctx w' = (w_ctx w)(k \<mapsto> ctx')" "w_cert w' = w_cert w"
  shows "certs_kept w w'"
  using assms by (simp add: certs_kept_def)

lemma invoke_certs:
  assumes ctx: "context_of conn w = Some (k, ctx)" and run: "invoke_listener E conn msg groups l w = Some w'"
  shows "certs_kept w w'"
proof (cases "listener_is_async l")
  case True
  obtain w1 ref where add: "add_pending conn w = (w1, ref)" by fastforce
  then have "w_ctx w1 = w_ctx w" "w_cert w1 = w_cert w" by (auto simp: add_pending_def Let_def set_resp_def)
  with True ctx run add show ?thesis
    by (auto simp: invoke_listener_def Let_def dest!: response_ops_certs intro: certs_kept_same)
next
  case False
  let ?ops = "listener_invoke_sync l E (request_new msg (remote_context_get_remote_ip ctx)
      (remote_context_get_tls_cert_info ctx) groups)"
  have "rc_tls_cert (snd (fst (run_ops response_do ?ops (response_new conn, ctx)))) = rc_tls_cert ctx"
    using run_ops_invariant [of "\<lambda>x. rc_tls_cert (snd x) = rc_tls_cert ctx" response_do "(response_new conn, ctx)" ?ops]
    by simp
  with False ctx run context_of_ctx [OF ctx] show ?thesis
    by (auto simp: invoke_listener_def Let_def split_def world_defs intro!: set_ctx_certs [where k = k and ctx = ctx])
qed

lemma http_message_certs:
  assumes ctx: "context_of conn w = Some (k, ctx)" and run: "handle_http_message E conn msg w = Some w'"
  shows "certs_kept w w'"
  using run invoke_certs [OF ctx]
  by (auto simp: handle_http_message_def emit_def split: option.splits intro: certs_kept_same)

lemma write_certs:
  assumes inv: "world_inv w" and ctx: "context_of conn w = Some (k, ctx)" and run: "handle_write E conn w = Some w'"
  shows "certs_kept w w'"
  using run context_of_ctx [OF ctx]
  by (auto simp: handle_write_eq [OF inv ctx] split_def Let_def world_defs
      intro!: set_ctx_certs [where k = k and ctx = ctx and ctx' = "fst (pump_stream E conn ctx)"])

subsection \<open>The handshake\<close>

lemma drop_cert_at:
  "w_cert (drop_cert q w) p = (if q = Some p then None else w_cert w p)" "w_ctx (drop_cert q w) = w_ctx w"
  by (auto simp: drop_cert_def split: option.split)

lemma setup_certs:
  assumes inv: "world_inv w" and ctx: "context_of conn w = Some (k, ctx)" and run: "setup_context E conn w = Some w'"
  shows "certs_ok w \<Longrightarrow> certs_ok w'" and "w_ctx w' k' = None \<longleftrightarrow> w_ctx w k' = None"
    and "w_cert w p \<noteq> None \<Longrightarrow>
      w_cert w' p = (if tls_setup E (c_tls conn) \<noteq> None \<and> rc_tls_cert ctx = Some p then None else w_cert w p)"
proof -
  let ?c = "w_next w"
  from context_of_ctx [OF ctx] have k: "w_ctx w k = Some ctx" by simp
  have new: "w_cert w ?c = None" using world_invD(5) [OF inv] by (simp add: fresh_ok_def)
  show "certs_ok w'" if "certs_ok w"
  proof (cases "tls_setup E (c_tls conn)")
    case None
    with run ctx that show ?thesis by (simp add: setup_context_def)
  next
    case (Some info)
    from that new have "\<not> owns w k' ?c" for k' unfolding certs_ok_def by blast
    then show ?thesis
      using Some run ctx that k
      by (intro certs_ok_new_cert [of w k ctx ?c w' info])
        (auto simp: setup_context_def Let_def set_ctx_def drop_cert_at)
  qed
  show "w_ctx w' k' = None \<longleftrightarrow> w_ctx w k' = None"
    using run ctx k
    by (cases "k' = k") (auto simp: setup_context_def Let_def set_ctx_def drop_cert_at split: option.splits)
  show "w_cert w' p = (if tls_setup E (c_tls conn) \<noteq> None \<and> rc_tls_cert ctx = Some p then None else w_cert w p)"
    if "w_cert w p \<noteq> None"
    using run ctx new that by (auto simp: setup_context_def Let_def set_ctx_def drop_cert_at split: option.splits)
qed

subsection \<open>Events\<close>

lemma event_endpoint:
  assumes "context_of conn w = Some (k, ctx)" "rc_endpoint ctx = 0" "c_fn conn = EventManagerContextHandler"
  shows "mg_call_handler E conn ev w = endpoint_handle E conn ev w"
  using assms by (simp add: mg_call_handler_def event_manager_context_handler_def remote_context_handle_def)

text \<open>An event other than a handshake leaves all certificates where they are.\<close>

lemma event_certs:
  assumes inv: "world_inv w" and ctx: "context_of conn w = Some (k, ctx)"
    and ev: "ev \<noteq> MG_EV_ACCEPT" "ev \<noteq> MG_EV_CLOSE" "ev \<noteq> MG_EV_TLS_HS"
    and run: "endpoint_handle E conn ev w = Some (conn', w')"
  shows "certs_kept w w'"
  using ev run poll_certs [of conn w w'] wakeup_certs [of conn _ w w'] http_message_certs [OF ctx, of E _ w']
    write_certs [OF inv ctx, of E w']
  by (cases ev) (auto simp: with_conn_def)

end
