(* ===== verification/Answer.thy ===== *)
theory Answer
  imports Channel Event_Properties Ownership
begin

text \<open>
  A worker that answers a request by \<open>send\<close>, and the event loop, running at the same time.
  Between any two accesses of the worker (\<open>response_step\<close> of \<open>Small_Steps\<close>) the loop may take
  a wakeup, handle a write or a poll, or close the connection. Unlike \<open>stream\<close>, \<open>send\<close>
  fills in all the loop reads before it wakes it.
\<close>

subsection \<open>The two threads\<close>

record 'p ask =
  ak_world :: "'p world"
  ak_pc :: response_pc
  ak_queue :: "string list"
  ak_open :: bool

inductive ask_step :: "'p mg_env set \<Rightarrow> mg_connection \<Rightarrow> nat \<Rightarrow> 'p ask \<Rightarrow> 'p ask \<Rightarrow> bool" for Es conn ref where
  ask_worker:
    "ak_pc s \<noteq> RP_done None \<Longrightarrow> E \<in> Es \<Longrightarrow> response_step E ref (ak_pc s) (ak_world s) = Some (pc', w') \<Longrightarrow>
     ask_step Es conn ref s (s\<lparr>ak_world := w', ak_pc := pc',
       ak_queue := ak_queue s @ queued E (drop (length (w_calls (ak_world s))) (w_calls w'))\<rparr>)"
| ask_wakeup:
    "ak_open s \<Longrightarrow> ak_queue s = d # ds \<Longrightarrow> handle_wakeup conn d (ak_world s) = Some w' \<Longrightarrow>
     ask_step Es conn ref s (s\<lparr>ak_world := w', ak_queue := ds\<rparr>)"
| ask_write:
    "ak_open s \<Longrightarrow> E \<in> Es \<Longrightarrow> handle_write E (conn\<lparr>c_send_len := len\<rparr>) (ak_world s) = Some w' \<Longrightarrow>
     ask_step Es conn ref s (s\<lparr>ak_world := w'\<rparr>)"
| ask_poll:
    "ak_open s \<Longrightarrow> handle_poll conn (ak_world s) = Some w' \<Longrightarrow>
     ask_step Es conn ref s (s\<lparr>ak_world := w'\<rparr>)"
| ask_close:
    "ak_open s \<Longrightarrow> handle_close conn (ak_world s) = Some (conn', w') \<Longrightarrow>
     ask_step Es conn ref s (s\<lparr>ak_world := w', ak_open := False\<rparr>)"

inductive_cases ask_stepE: "ask_step Es conn ref s t"

subsection \<open>What it promises\<close>

text \<open>
  Whether the connection is open, what is on the wire and whether an answer is owed. It is
  given once; when wakeups may fail an error may take its place.
\<close>

type_synonym promise = "bool \<times> mg_call list \<times> bool"

inductive promise_step :: "bool \<Rightarrow> mg_call \<Rightarrow> mg_call \<Rightarrow> promise \<Rightarrow> promise \<Rightarrow> bool" for lossy reply err where
  promise_kept: "promise_step lossy reply err (True, out, True) (True, out @ [reply], False)"
| promise_broken: "lossy \<Longrightarrow> promise_step lossy reply err (True, out, True) (True, out @ [err], False)"
| promise_closed: "promise_step lossy reply err (True, out, owed) (False, out, False)"

definition ask_abs :: "mg_connection \<Rightarrow> u64 \<Rightarrow> 'p ask \<Rightarrow> promise" where
  "ask_abs conn rid s =
     (ak_open s, net_calls (w_calls (ak_world s)),
      ak_open s \<and> pend_find (pending_responses (ak_world s)) (c_id conn) rid \<noteq> None)"

lemma promise_outcome:
  assumes "(promise_step lossy reply err)\<^sup>*\<^sup>* (True, out, True) b"
  shows "(fst (snd b) = out \<or> fst (snd b) = out @ [reply] \<or> lossy \<and> fst (snd b) = out @ [err]) \<and>
    (snd (snd b) \<longrightarrow> fst (snd b) = out) \<and>
    (fst b \<and> \<not> snd (snd b) \<and> \<not> lossy \<longrightarrow> fst (snd b) = out @ [reply])"
  using assms
proof (induction rule: rtranclp_induct)
  case (step b b')
  from step.hyps(2) step.IH show ?case by (cases rule: promise_step.cases) auto
qed simp

subsection \<open>What holds between the steps\<close>

text \<open>The payload of the answer.\<close>

definition answer_of :: "int \<Rightarrow> headers \<Rightarrow> string \<Rightarrow> payload" where
  "answer_of code h body = \<lparr>pl_code = code, pl_headers = headers_format False h, pl_body = body\<rparr>"

definition reply_of :: "mg_connection \<Rightarrow> int \<Rightarrow> headers \<Rightarrow> string \<Rightarrow> mg_call" where
  "reply_of conn code h body = MgHttpReply (c_id conn) code (c_str (headers_format False h)) body"

text \<open>The other requests of the connection have not failed, and no synchronous stream is on.\<close>

definition undisturbed :: "mg_connection \<Rightarrow> u64 \<Rightarrow> 'p world \<Rightarrow> bool" where
  "undisturbed conn rid w \<longleftrightarrow>
     (\<forall>i x. pend_find (pending_responses w) (c_id conn) i = Some x \<longrightarrow> i \<noteq> rid \<longrightarrow> \<not> ref_failed (w_resp w) x) \<and>
     pend_find (pending_streams w) (c_id conn) rid = None \<and>
     (\<exists>k ctx. context_of conn w = Some (k, ctx) \<and> rc_stream ctx = None)"

definition owing :: "'p world \<Rightarrow> mg_connection \<Rightarrow> u64 \<Rightarrow> nat \<Rightarrow> async_response \<Rightarrow> bool" where
  "owing w conn rid ref r \<longleftrightarrow>
     world_inv w \<and> undisturbed conn rid w \<and> w_resp w ref = Some r \<and> ar_conn r = c_id conn \<and> ar_id r = rid \<and>
     pend_find (pending_responses w) (c_id conn) rid = Some ref"

definition settled :: "'p world \<Rightarrow> mg_connection \<Rightarrow> u64 \<Rightarrow> nat \<Rightarrow> bool" where
  "settled w conn rid ref \<longleftrightarrow>
     world_inv w \<and> undisturbed conn rid w \<and> w_resp w ref \<noteq> None \<and>
     pend_find (pending_responses w) (c_id conn) rid = None"

text \<open>The queue, the state and the payload for each place of the worker, while an answer is owed.\<close>

inductive ask_phase :: "bool \<Rightarrow> string \<Rightarrow> int \<Rightarrow> headers \<Rightarrow> string \<Rightarrow> response_pc \<Rightarrow> string list \<Rightarrow> async_response \<Rightarrow> bool"
  for lossy b code h body where
  kp_guard: "ar_headers r = h \<Longrightarrow> ar_state r = R_pending \<Longrightarrow>
    ask_phase lossy b code h body (RP_guard (ASend code body)) [] r"
| kp_fill: "ar_headers r = h \<Longrightarrow> ar_state r = R_pending \<Longrightarrow>
    ask_phase lossy b code h body (RP_fill (ASend code body)) [] r"
| kp_wake: "ar_payload r = answer_of code h body \<Longrightarrow> ar_state r = R_pending \<Longrightarrow>
    ask_phase lossy b code h body (RP_wake R_sending) [] r"
| kp_store: "ar_payload r = answer_of code h body \<Longrightarrow> ar_state r = R_pending \<Longrightarrow>
    ask_phase lossy b code h body (RP_store R_sending) [b] r"
| kp_sent: "ar_payload r = answer_of code h body \<Longrightarrow> ar_state r = R_sending \<Longrightarrow>
    ask_phase lossy b code h body (RP_done None) [b] r"
| kp_fail: "lossy \<Longrightarrow> ar_state r = R_pending \<Longrightarrow> ask_phase lossy b code h body (RP_store R_failed) [] r"
| kp_failed: "lossy \<Longrightarrow> ar_state r = R_failed \<Longrightarrow> ask_phase lossy b code h body (RP_done None) [] r"

definition ask_ok :: "bool \<Rightarrow> mg_connection \<Rightarrow> u64 \<Rightarrow> nat \<Rightarrow> int \<Rightarrow> headers \<Rightarrow> string \<Rightarrow> 'p ask \<Rightarrow> bool" where
  "ask_ok lossy conn rid ref code h body s \<longleftrightarrow> ak_open s \<longrightarrow>
     (\<exists>r. owing (ak_world s) conn rid ref r \<and>
        ask_phase lossy (size_t_bytes rid) code h body (ak_pc s) (ak_queue s) r)
     \<or> (settled (ak_world s) conn rid ref \<and> ak_queue s = [] \<and> ak_pc s \<in> {RP_store R_sending, RP_done None})"

lemma ask_ok_cases [consumes 2, case_names owing settled]:
  assumes "ask_ok lossy conn rid ref code h body s" "ak_open s"
  obtains r where "owing (ak_world s) conn rid ref r"
      "ask_phase lossy (size_t_bytes rid) code h body (ak_pc s) (ak_queue s) r"
    | "settled (ak_world s) conn rid ref" "ak_queue s = []" "ak_pc s \<in> {RP_store R_sending, RP_done None}"
  using assms unfolding ask_ok_def by blast

subsection \<open>Changing the response\<close>

lemma world_inv_set_resp:
  assumes inv: "world_inv w" and old: "w_resp w ref = Some r"
    and same: "ar_conn r' = ar_conn r" "ar_id r' = ar_id r" "ar_state r' \<noteq> R_streaming"
  shows "world_inv (set_resp ref r' w)"
proof (rule world_inv_kept [OF inv])
  show "fresh_ok (set_resp ref r' w)"
    using world_invD(5) [OF inv] old by (auto simp: fresh_ok_def set_resp_def)
  show "resp_ok (set_resp ref r' w) c i x" if "resp_ok w c i x" for c i x
    using that old same by (auto simp: resp_ok_def strm_ok_def set_resp_def)
qed (use world_invD(6) [OF inv] in \<open>simp_all add: set_resp_def strm_kept_def\<close>)

text \<open>No other entry leads to it.\<close>

lemma undisturbed_set_resp:
  assumes inv: "world_inv w" and old: "w_resp w ref = Some r" "ar_conn r = c_id conn" "ar_id r = rid"
    and "undisturbed conn rid w"
  shows "undisturbed conn rid (set_resp ref r' w)"
proof -
  have "x \<noteq> ref" if "pend_find (pending_responses w) (c_id conn) i = Some x" "i \<noteq> rid" for i x
    using world_invD(3) [OF inv that(1)] old that(2) by (auto simp: resp_ok_def)
  then show ?thesis
    using assms(5) context_of_same [of "set_resp ref r' w" w conn]
    by (auto simp: undisturbed_def set_resp_def ref_failed_def)
qed

lemma owing_set_resp:
  assumes "owing w conn rid ref r" "ar_conn r' = ar_conn r" "ar_id r' = ar_id r" "ar_state r' \<noteq> R_streaming"
  shows "owing (set_resp ref r' w) conn rid ref r'"
  using assms world_inv_set_resp [of w ref r r'] undisturbed_set_resp [of w ref r conn rid r']
  by (auto simp: owing_def set_resp_def)

lemma undisturbed_emit [simp]: "undisturbed conn rid (emit ks w) = undisturbed conn rid w"
  using context_of_same [of "emit ks w" w conn] by (simp add: undisturbed_def emit_def)

lemma owing_emit: "owing w conn rid ref r \<Longrightarrow> list_all wakeup_ok ks \<Longrightarrow> owing (emit ks w) conn rid ref r"
  by (simp add: owing_def) (simp add: emit_def)

subsection \<open>Steps of the worker\<close>

lemma owing_worker:
  assumes O: "owing w conn rid ref r" and ph: "ask_phase lossy (size_t_bytes rid) code h body pc q r"
    and env: "lossy \<or> env_open E" and pc: "pc \<noteq> RP_done None" and step: "response_step E ref pc w = Some (pc', w')"
  shows "(\<exists>r'. owing w' conn rid ref r' \<and>
      ask_phase lossy (size_t_bytes rid) code h body pc' (q @ queued E (drop (length (w_calls w)) (w_calls w'))) r') \<and>
    net_calls (w_calls w') = net_calls (w_calls w)"
proof -
  from O have r: "w_resp w ref = Some r" "ar_conn r = c_id conn" "ar_id r = rid" by (simp_all add: owing_def)
  have result: ?thesis
    if "owing w' conn rid ref r'" "w_calls w' = w_calls w" "ask_phase lossy (size_t_bytes rid) code h body pc' q r'" for r'
    using that by auto
  from ph pc show ?thesis
  proof (cases rule: ask_phase.cases)
    case kp_guard
    with step r have "pc' = RP_fill (ASend code body)" "w' = w" by auto
    with kp_guard O show ?thesis by (intro result [of r]) (auto intro: ask_phase.kp_fill)
  next
    case kp_fill
    show ?thesis
    proof (cases "env_mgr_alive E")
      case True
      let ?r = "r\<lparr>ar_payload := answer_of code h body\<rparr>"
      from True kp_fill step r have w': "pc' = RP_wake R_sending" "w' = set_resp ref ?r w"
        by (auto simp: answer_of_def)
      have "owing w' conn rid ref ?r" unfolding w' by (rule owing_set_resp [OF O]) (use kp_fill in simp_all)
      then show ?thesis
        by (rule result) (use w' kp_fill in \<open>auto simp: set_resp_def intro: ask_phase.kp_wake\<close>)
    next
      case False
      with env have lossy by (simp add: env_open_def)
      from False kp_fill step r have "pc' = RP_store R_failed" "w' = w" by auto
      with kp_fill O \<open>lossy\<close> show ?thesis by (intro result [of r]) (auto intro: ask_phase.kp_fail)
    qed
  next
    case kp_wake
    let ?k = "MgWakeup (c_id conn) (size_t_bytes rid)"
    from kp_wake step r have w': "w' = emit [?k] w"
      and pc': "pc' = RP_store (if env_wakeup E (c_id conn) (size_t_bytes rid) then R_sending else R_failed)" by auto
    have O': "owing w' conn rid ref r" unfolding w' by (rule owing_emit [OF O]) auto
    have "ask_phase lossy (size_t_bytes rid) code h body pc'
        (if env_wakeup E (c_id conn) (size_t_bytes rid) then [size_t_bytes rid] else []) r"
      using kp_wake pc' env by (auto intro: ask_phase.kp_store ask_phase.kp_fail simp: env_open_def)
    then show ?thesis using O' kp_wake by (intro conjI exI [of _ r]) (auto simp: w' emit_def)
  next
    case kp_store
    let ?r = "r\<lparr>ar_state := R_sending\<rparr>"
    from kp_store step r have w': "pc' = RP_done None" "w' = set_resp ref ?r w" by (auto simp: update_resp_def)
    have "owing w' conn rid ref ?r" unfolding w' by (rule owing_set_resp [OF O]) simp_all
    then show ?thesis
      by (rule result) (use w' kp_store in \<open>auto simp: set_resp_def intro: ask_phase.kp_sent\<close>)
  next
    case kp_fail
    let ?r = "r\<lparr>ar_state := R_failed\<rparr>"
    from kp_fail step r have w': "pc' = RP_done None" "w' = set_resp ref ?r w" by (auto simp: update_resp_def)
    have "owing w' conn rid ref ?r" unfolding w' by (rule owing_set_resp [OF O]) simp_all
    then show ?thesis
      by (rule result) (use w' kp_fail in \<open>auto simp: set_resp_def intro: ask_phase.kp_failed\<close>)
  qed auto
qed

text \<open>A worker that stores its state after the answer has gone out disturbs nobody.\<close>

lemma settled_worker:
  assumes S: "settled w conn rid ref" and step: "response_step E ref (RP_store R_sending) w = Some (pc', w')"
  shows "settled w' conn rid ref \<and> pc' = RP_done None \<and> w_calls w' = w_calls w"
proof -
  from S obtain r where r: "w_resp w ref = Some r" by (auto simp: settled_def)
  let ?r = "r\<lparr>ar_state := R_sending\<rparr>"
  from step r have w': "pc' = RP_done None" "w' = set_resp ref ?r w" by (auto simp: update_resp_def)
  have inv: "world_inv w" using S by (simp add: settled_def)
  have "world_inv w'" unfolding w' by (rule world_inv_set_resp [OF inv r]) simp_all
  moreover have "undisturbed conn rid w'"
    using S r context_of_same [of w' w conn] by (auto simp: settled_def undisturbed_def w' set_resp_def ref_failed_def)
  ultimately show ?thesis using S by (simp add: settled_def w' set_resp_def)
qed

lemma response_step_net:
  "response_step E ref pc w = Some (pc', w') \<Longrightarrow> net_calls (w_calls w') = net_calls (w_calls w)"
  by (cases pc) (auto simp: update_resp_def world_defs Let_def split_def split: option.splits if_splits)

subsection \<open>Steps of the loop\<close>

lemma owing_wakeup:
  assumes O: "owing w conn rid ref r" and r: "ar_payload r = answer_of code h body" "ar_state r \<noteq> R_streaming"
    and run: "handle_wakeup conn (size_t_bytes rid) w = Some w'"
  shows "settled w' conn rid ref \<and> w_calls w' = w_calls w @ [reply_of conn code h body]"
proof -
  from O have o: "world_inv w" "pend_find (pending_responses w) (c_id conn) rid = Some ref" "w_resp w ref = Some r"
    "pend_find (pending_streams w) (c_id conn) rid = None" "undisturbed conn rid w" "ar_conn r = c_id conn" "ar_id r = rid"
    by (simp_all add: owing_def undisturbed_def)
  from handle_response_reply [OF o(1-3) r(2) o(4)] run have
    w': "w_calls w' = w_calls w @ [reply_of conn code h body]" "w_resp w' = (w_resp w)(ref \<mapsto> r\<lparr>ar_state := R_completed\<rparr>)"
      "\<And>c i. pend_find (pending_responses w') c i = (if c = c_id conn \<and> i = rid then None else pend_find (pending_responses w) c i)"
      "pending_streams w' = pending_streams w"
    by (auto simp: r(1) answer_of_def reply_of_def)
  have "world_inv w'"
    using handle_wakeup_safe [OF o(1), of "size_t_bytes rid" rid conn] run by (auto simp: good_step_def)
  moreover have "x \<noteq> ref" if "pend_find (pending_responses w) (c_id conn) i = Some x" "i \<noteq> rid" for i x
    using world_invD(3) [OF o(1) that(1)] o(3,6,7) that(2) by (auto simp: resp_ok_def)
  then have "undisturbed conn rid w'"
    using o(4,5) wakeup_frame [OF run] context_of_same [of w' w conn] by (auto simp: undisturbed_def w' ref_failed_def)
  ultimately show ?thesis by (simp add: settled_def w')
qed

lemma write_undisturbed:
  assumes inv: "world_inv w" and "undisturbed conn rid w" and run: "handle_write E (conn\<lparr>c_send_len := len\<rparr>) w = Some w'"
  shows "world_inv w' \<and> undisturbed conn rid w' \<and> w_calls w' = w_calls w \<and> w_resp w' = w_resp w \<and> w_ep w' = w_ep w"
proof -
  let ?conn = "conn\<lparr>c_send_len := len\<rparr>"
  from assms(2) obtain k ctx where ctx: "context_of conn w = Some (k, ctx)" "rc_stream ctx = None"
    by (auto simp: undisturbed_def)
  have ctx': "context_of ?conn w = Some (k, ctx)" using ctx(1) by (simp add: context_of_def)
  from handle_write_plain [OF inv ctx' ctx(2), of E] run have
    same: "w_ep w' = w_ep w" "w_calls w' = w_calls w" "w_resp w' = w_resp w" "w_ctx w' = w_ctx w" by auto
  have "world_inv w'" using handle_write_safe [OF inv ctx', of E] run by (auto simp: good_step_def)
  with same assms(2) context_of_same [of w' w conn] show ?thesis by (simp add: undisturbed_def)
qed

text \<open>A poll sends one error at most, for this response.\<close>

lemma filter_only:
  assumes "um_ok (=) m" "\<And>k v. (k, v) \<in> set m \<Longrightarrow> P v \<Longrightarrow> k = key"
  shows "length (filter (\<lambda>e. P (snd e)) m) = (case um_find (=) m key of None \<Rightarrow> 0 | Some v \<Rightarrow> if P v then 1 else 0)"
  using assms
proof (induction m)
  case (Cons e m)
  obtain k v where e: "e = (k, v)" by (cases e)
  from Cons.prems e have ok: "um_ok (=) m" "k \<notin> fst ` set m" by (auto simp: um_ok_distinct)
  have IH: "length (filter (\<lambda>e. P (snd e)) m) = (case um_find (=) m key of None \<Rightarrow> 0 | Some v \<Rightarrow> if P v then 1 else 0)"
    using Cons.IH [OF ok(1)] Cons.prems(2) by auto
  have "um_find (=) m k = None" using ok(2) by (simp add: um_find_map_of map_of_eq_None_iff)
  with IH Cons.prems(2) [of k v] e show ?case by (auto simp: um_find_map_of)
qed simp

lemma poll_undisturbed:
  assumes inv: "world_inv w" and und: "undisturbed conn rid w" and run: "handle_poll conn w = Some w'"
  defines "lost \<equiv> (case pend_find (pending_responses w) (c_id conn) rid of None \<Rightarrow> False | Some x \<Rightarrow> ref_failed (w_resp w) x)"
  shows "world_inv w' \<and> undisturbed conn rid w' \<and> w_resp w' = w_resp w \<and>
    w_calls w' = w_calls w @ (if lost then [internal_server_error_reply conn] else []) \<and>
    pend_find (pending_responses w') (c_id conn) rid =
      (if lost then None else pend_find (pending_responses w) (c_id conn) rid)"
proof -
  let ?n = "case um_find (=) (pending_responses w) (c_id conn) of
         None \<Rightarrow> 0 | Some rs \<Rightarrow> length (filter (\<lambda>e. ref_failed (w_resp w) (snd e)) rs)"
  from poll_flushes_failures [OF inv, of conn] run have
    calls: "w_calls w' = w_calls w @ replicate ?n (internal_server_error_reply conn)" and
    find: "\<And>c i. pend_find (pending_responses w') c i =
      (case pend_find (pending_responses w) c i of
         None \<Rightarrow> None
       | Some x \<Rightarrow> if c = c_id conn \<and> ref_failed (w_resp w) x then None else Some x)" and
    same: "w_resp w' = w_resp w" "pending_streams w' = pending_streams w" by auto
  have n: "?n = (if lost then 1 else 0)"
  proof (cases "um_find (=) (pending_responses w) (c_id conn)")
    case None
    then show ?thesis by (simp add: lost_def pend_find_def)
  next
    case (Some rs)
    note pok = world_invD(1) [OF inv]
    have ok: "um_ok (=) rs" using pok Some by (simp add: pend_ok_def)
    have "k = rid" if "(k, v) \<in> set rs" "ref_failed (w_resp w) v" for k v
      using und pend_member [OF pok Some that(1)] that(2) by (auto simp: undisturbed_def)
    from filter_only [OF ok this] Some show ?thesis
      by (auto simp: lost_def pend_find_def split: option.split)
  qed
  have "world_inv w'" using handle_poll_safe [OF inv, of conn] run by (auto simp: good_step_def)
  moreover have "undisturbed conn rid w'"
    using und poll_frame [OF run] context_of_same [of w' w conn]
    by (auto simp: undisturbed_def find same split: option.splits if_splits)
  moreover have "pend_find (pending_responses w') (c_id conn) rid =
      (if lost then None else pend_find (pending_responses w) (c_id conn) rid)"
    by (simp add: find lost_def split: option.split)
  ultimately show ?thesis using calls n same by simp
qed

subsection \<open>Every step keeps it, and is a step of the promise\<close>

abbreviation err_of :: "mg_connection \<Rightarrow> mg_call" where
  "err_of conn \<equiv> internal_server_error_reply conn"

lemma ask_okI:
  "owing (ak_world s) conn rid ref r \<Longrightarrow>
    ask_phase lossy (size_t_bytes rid) code h body (ak_pc s) (ak_queue s) r \<Longrightarrow> ask_ok lossy conn rid ref code h body s"
  "settled (ak_world s) conn rid ref \<Longrightarrow> ak_queue s = [] \<Longrightarrow> ak_pc s \<in> {RP_store R_sending, RP_done None} \<Longrightarrow>
    ask_ok lossy conn rid ref code h body s"
  unfolding ask_ok_def by blast+

lemma ask_absD:
  "owing (ak_world s) conn rid ref r \<Longrightarrow> ak_open s \<Longrightarrow> ask_abs conn rid s = (True, net_calls (w_calls (ak_world s)), True)"
  "settled (ak_world s) conn rid ref \<Longrightarrow> ak_open s \<Longrightarrow> ask_abs conn rid s = (True, net_calls (w_calls (ak_world s)), False)"
  by (simp_all add: ask_abs_def owing_def settled_def)

lemma err_not_wakeup [simp]: "is_wakeup (err_of conn) = False" "is_wakeup (reply_of conn code h body) = False"
  by (simp_all add: internal_server_error_reply_def reply_of_def)

text \<open>A step of the loop on a world in which the answer is owed or settled.\<close>

lemma open_ask_step:
  assumes step: "ask_step Es conn ref s t" and ok: "ask_ok lossy conn rid ref code h body s" and op: "ak_open s"
    and env: "lossy \<or> (\<forall>E \<in> Es. env_open E)"
  shows "ask_ok lossy conn rid ref code h body t \<and>
    (ask_abs conn rid t = ask_abs conn rid s \<or>
     promise_step lossy (reply_of conn code h body) (err_of conn) (ask_abs conn rid s) (ask_abs conn rid t))"
  using step
proof (cases rule: ask_step.cases)
  case (ask_worker E pc' w')
  from env ask_worker(3) have env: "lossy \<or> env_open E" by blast
  from ok op show ?thesis
  proof (cases rule: ask_ok_cases)
    case (owing r)
    from owing_worker [OF owing env ask_worker(2,4)] obtain r' where
      t: "owing (ak_world t) conn rid ref r'" "ask_phase lossy (size_t_bytes rid) code h body (ak_pc t) (ak_queue t) r'"
        "net_calls (w_calls (ak_world t)) = net_calls (w_calls (ak_world s))" by (auto simp: ask_worker(1))
    moreover have "ak_open t" using op ask_worker(1) by simp
    ultimately show ?thesis using ask_okI(1) [OF t(1,2)] ask_absD(1) [OF t(1)] ask_absD(1) [OF owing(1) op] by simp
  next
    case settled
    then have "ak_pc s = RP_store R_sending" using ask_worker(2) by simp
    with settled_worker [OF settled(1)] ask_worker(4) have
      t: "settled (ak_world t) conn rid ref" "pc' = RP_done None" "w_calls w' = w_calls (ak_world s)" by (simp_all add: ask_worker(1))
    then have "ak_queue t = []" "ak_pc t \<in> {RP_store R_sending, RP_done None}" "ak_open t"
      using settled op by (simp_all add: ask_worker(1))
    with t show ?thesis
      using ask_okI(2) [OF t(1)] ask_absD(2) [OF t(1)] ask_absD(2) [OF settled(1) op] by (simp add: ask_worker(1))
  qed
next
  case (ask_wakeup d ds w')
  from ok op show ?thesis
  proof (cases rule: ask_ok_cases)
    case (owing r)
    from owing(2) ask_wakeup(3) have d: "d = size_t_bytes rid" "ds = []" and r: "ar_payload r = answer_of code h body"
      "ar_state r \<noteq> R_streaming" and pc: "ak_pc s \<in> {RP_store R_sending, RP_done None}"
      by (cases rule: ask_phase.cases; simp)+
    from owing_wakeup [OF owing(1) r] ask_wakeup(4) d have
      w': "settled w' conn rid ref" "w_calls w' = w_calls (ak_world s) @ [reply_of conn code h body]" by auto
    have t: "settled (ak_world t) conn rid ref" "ak_queue t = []" "ak_pc t \<in> {RP_store R_sending, RP_done None}" "ak_open t"
      using w'(1) d(2) pc op by (simp_all add: ask_wakeup(1))
    have "promise_step lossy (reply_of conn code h body) (err_of conn) (ask_abs conn rid s) (ask_abs conn rid t)"
      unfolding ask_absD(1) [OF owing(1) op] ask_absD(2) [OF t(1,4)] using w'(2) promise_kept by (simp add: ask_wakeup(1))
    with ask_okI(2) [OF t(1-3)] show ?thesis by simp
  next
    case settled
    with ask_wakeup(3) show ?thesis by simp
  qed
next
  case (ask_write E len w')
  from ok op have und: "world_inv (ak_world s)" "undisturbed conn rid (ak_world s)"
    by (cases rule: ask_ok_cases; simp add: owing_def settled_def)+
  note W = write_undisturbed [OF und ask_write(4)]
  have abs: "ask_abs conn rid t = ask_abs conn rid s" using W by (simp add: ask_abs_def ask_write(1))
  from ok op show ?thesis
  proof (cases rule: ask_ok_cases)
    case (owing r)
    have "owing (ak_world t) conn rid ref r" using owing(1) W by (simp add: owing_def ask_write(1))
    from ask_okI(1) [OF this] owing(2) abs show ?thesis by (simp add: ask_write(1))
  next
    case settled
    have "settled (ak_world t) conn rid ref" using settled(1) W by (simp add: settled_def ask_write(1))
    from ask_okI(2) [OF this] settled(2,3) abs show ?thesis by (simp add: ask_write(1))
  qed
next
  case (ask_poll w')
  from ok op have und: "world_inv (ak_world s)" "undisturbed conn rid (ak_world s)"
    by (cases rule: ask_ok_cases; simp add: owing_def settled_def)+
  note P = poll_undisturbed [OF und ask_poll(3)]
  from ok op show ?thesis
  proof (cases rule: ask_ok_cases)
    case (owing r)
    then have o: "pend_find (pending_responses (ak_world s)) (c_id conn) rid = Some ref" "w_resp (ak_world s) ref = Some r"
      by (simp_all add: owing_def)
    show ?thesis
    proof (cases "ar_state r = R_failed")
      case True
      with o P have w': "settled w' conn rid ref" "w_calls w' = w_calls (ak_world s) @ [err_of conn]"
        by (simp_all add: settled_def ref_failed_def)
      from owing(2) True have ph: "lossy" "ak_pc s = RP_done None" "ak_queue s = []"
        by (cases rule: ask_phase.cases; simp)+
      have t: "settled (ak_world t) conn rid ref" "ak_queue t = []" "ak_pc t \<in> {RP_store R_sending, RP_done None}" "ak_open t"
        using w'(1) ph(2,3) op by (simp_all add: ask_poll(1))
      have "promise_step lossy (reply_of conn code h body) (err_of conn) (ask_abs conn rid s) (ask_abs conn rid t)"
        unfolding ask_absD(1) [OF owing(1) op] ask_absD(2) [OF t(1,4)]
        using w'(2) promise_broken [OF ph(1)] by (simp add: ask_poll(1))
      with ask_okI(2) [OF t(1-3)] show ?thesis by simp
    next
      case False
      with o P have w': "owing w' conn rid ref r" "w_calls w' = w_calls (ak_world s)"
        using owing(1) by (simp_all add: owing_def ref_failed_def)
      have t: "owing (ak_world t) conn rid ref r" "ak_open t" using w'(1) op by (simp_all add: ask_poll(1))
      show ?thesis
        using ask_okI(1) [OF t(1)] owing(2) ask_absD(1) [OF t] ask_absD(1) [OF owing(1) op] w'(2) by (simp add: ask_poll(1))
    qed
  next
    case settled
    with P have w': "settled w' conn rid ref" "w_calls w' = w_calls (ak_world s)" by (simp_all add: settled_def)
    have t: "settled (ak_world t) conn rid ref" "ak_open t" using w'(1) op by (simp_all add: ask_poll(1))
    show ?thesis
      using ask_okI(2) [OF t(1)] settled(2,3) ask_absD(2) [OF t] ask_absD(2) [OF settled(1) op] w'(2) by (simp add: ask_poll(1))
  qed
next
  case (ask_close conn' w')
  then show ?thesis
    using close_calls [OF ask_close(3)] promise_closed op by (simp add: ask_ok_def ask_abs_def)
qed

lemma ask_step_ok:
  assumes step: "ask_step Es conn ref s t" and ok: "ask_ok lossy conn rid ref code h body s"
    and env: "lossy \<or> (\<forall>E \<in> Es. env_open E)"
  shows "ask_ok lossy conn rid ref code h body t \<and>
    (ask_abs conn rid t = ask_abs conn rid s \<or>
     promise_step lossy (reply_of conn code h body) (err_of conn) (ask_abs conn rid s) (ask_abs conn rid t))"
proof (cases "ak_open s")
  case True
  then show ?thesis by (rule open_ask_step [OF step ok _ env])
next
  case False
  with step have "\<not> ak_open t" "net_calls (w_calls (ak_world t)) = net_calls (w_calls (ak_world s))"
    by (auto elim!: ask_stepE dest: response_step_net)
  with False show ?thesis by (simp add: ask_ok_def ask_abs_def)
qed

subsection \<open>The worker keeps the promise\<close>

definition ask_init :: "mg_connection \<Rightarrow> u64 \<Rightarrow> nat \<Rightarrow> int \<Rightarrow> headers \<Rightarrow> string \<Rightarrow> 'p ask \<Rightarrow> bool" where
  "ask_init conn rid ref code h body s \<longleftrightarrow>
     (\<exists>r. owing (ak_world s) conn rid ref r \<and> ar_headers r = h \<and> ar_state r = R_pending) \<and>
     ak_pc s = RP_guard (ASend code body) \<and> ak_queue s = [] \<and> ak_open s"

interpretation answer: simulation "ask_init conn rid ref code h body" "ask_step Es conn ref"
    "ask_ok (may_lose Es) conn rid ref code h body" "ask_abs conn rid"
    "promise_step (may_lose Es) (reply_of conn code h body) (err_of conn)"
proof unfold_locales
  show "ask_ok (may_lose Es) conn rid ref code h body s" if "ask_init conn rid ref code h body s" for s
    using that by (auto simp: ask_init_def intro!: ask_okI(1) ask_phase.kp_guard)
  show "ask_ok (may_lose Es) conn rid ref code h body t"
    if "ask_ok (may_lose Es) conn rid ref code h body s" "ask_step Es conn ref s t" for s t
    using ask_step_ok [OF that(2,1) may_lose_cases] by blast
  show "ask_abs conn rid t = ask_abs conn rid s \<or>
      promise_step (may_lose Es) (reply_of conn code h body) (err_of conn) (ask_abs conn rid s) (ask_abs conn rid t)"
    if "ask_ok (may_lose Es) conn rid ref code h body s" "ask_step Es conn ref s t" for s t
    using ask_step_ok [OF that(2,1) may_lose_cases] by blast
qed

lemma ask_abs_init:
  "ask_init conn rid ref code h body s \<Longrightarrow> ask_abs conn rid s = (True, net_calls (w_calls (ak_world s)), True)"
  by (auto simp: ask_init_def intro: ask_absD(1))

subsection \<open>Progress\<close>

fun pc_left :: "response_pc \<Rightarrow> nat" where
  "pc_left (RP_guard op) = 5"
| "pc_left (RP_fill op) = 4"
| "pc_left (RP_wake st) = 3"
| "pc_left (RP_store st) = 1"
| "pc_left RP_return = 1"
| "pc_left (RP_done p) = 0"

definition ask_done :: "'p ask \<Rightarrow> bool" where
  "ask_done s \<longleftrightarrow> ak_pc s = RP_done None \<and> ak_queue s = []"

lemma ask_progress:
  assumes ok: "ask_ok False conn rid ref code h body s" and op: "ak_open s" and "\<not> ask_done s"
    and E: "E \<in> Es" "env_open E"
  shows "\<exists>t. ask_step Es conn ref s t \<and> ak_open t \<and>
    pc_left (ak_pc t) + length (ak_queue t) < pc_left (ak_pc s) + length (ak_queue s)"
proof -
  let ?w = "ak_world s"
  have worker: ?thesis
    if "ak_pc s = pc" "pc \<noteq> RP_done None" "response_step E ref pc ?w = Some (pc', w')"
      "pc_left pc' + length (queued E (drop (length (w_calls ?w)) (w_calls w'))) < pc_left pc" for pc pc' w'
  proof -
    let ?t = "s\<lparr>ak_world := w', ak_pc := pc', ak_queue := ak_queue s @ queued E (drop (length (w_calls ?w)) (w_calls w'))\<rparr>"
    from ask_worker [of s E Es ref pc' w' conn] that(1-3) E(1) have "ask_step Es conn ref s ?t" by simp
    with that(1,4) op show ?thesis by (intro exI [of _ ?t]) simp
  qed
  from ok op show ?thesis
  proof (cases rule: ask_ok_cases)
    case (owing r)
    then have r: "w_resp ?w ref = Some r" "ar_conn r = c_id conn" "ar_id r = rid" by (simp_all add: owing_def)
    from owing(2) show ?thesis
    proof (cases rule: ask_phase.cases)
      case kp_guard
      then show ?thesis using r by (intro worker [OF kp_guard(1)]) auto
    next
      case kp_fill
      then show ?thesis using r E(2) by (intro worker [OF kp_fill(1)]) (auto simp: env_open_def set_resp_def)
    next
      case kp_wake
      then show ?thesis using r E(2) by (intro worker [OF kp_wake(1)]) (auto simp: env_open_def emit_def)
    next
      case kp_store
      then show ?thesis using r by (intro worker [OF kp_store(1)]) (auto simp: update_resp_def set_resp_def)
    next
      case kp_sent
      from owing(1) have "world_inv ?w" by (simp add: owing_def)
      from handle_wakeup_safe [OF this, of "size_t_bytes rid" rid conn] obtain w' where
        "handle_wakeup conn (size_t_bytes rid) ?w = Some w'" by auto
      from ask_step.ask_wakeup [OF op kp_sent(2) this, of Es ref] kp_sent op show ?thesis
        by (intro exI [of _ "s\<lparr>ak_world := w', ak_queue := []\<rparr>"]) simp
    qed simp_all
  next
    case settled
    with assms(3) have pc: "ak_pc s = RP_store R_sending" by (auto simp: ask_done_def)
    from settled(1) obtain r where "w_resp ?w ref = Some r" by (auto simp: settled_def)
    then show ?thesis by (intro worker [OF pc]) (auto simp: update_resp_def set_resp_def)
  qed
qed

lemma ask_can_finish:
  assumes "ask_ok False conn rid ref code h body s" and "ak_open s" and env: "\<forall>E \<in> Es. env_open E" "E \<in> Es"
  shows "\<exists>t. (ask_step Es conn ref)\<^sup>*\<^sup>* s t \<and> ask_done t \<and> ask_ok False conn rid ref code h body t \<and> ak_open t"
  using assms(1,2)
proof (induction "pc_left (ak_pc s) + length (ak_queue s)" arbitrary: s rule: less_induct)
  case less
  show ?case
  proof (cases "ask_done s")
    case True
    with less.prems show ?thesis by blast
  next
    case False
    from env have "env_open E" by blast
    from ask_progress [OF less.prems False env(2) this] obtain t where
      t: "ask_step Es conn ref s t" "ak_open t"
        "pc_left (ak_pc t) + length (ak_queue t) < pc_left (ak_pc s) + length (ak_queue s)" by blast
    from ask_step_ok [OF t(1) less.prems(1)] env(1) have "ask_ok False conn rid ref code h body t" by blast
    from less.hyps [OF t(3) this t(2)] t(1) show ?thesis by (metis converse_rtranclp_into_rtranclp)
  qed
qed

lemma ask_done_settled:
  assumes "ask_ok False conn rid ref code h body s" "ask_done s" "ak_open s"
  shows "settled (ak_world s) conn rid ref"
  using assms(1,3)
proof (cases rule: ask_ok_cases)
  case (owing r)
  from owing(2) assms(2) show ?thesis by (cases rule: ask_phase.cases) (auto simp: ask_done_def)
qed

end
