(* ===== verification/Answer_Properties.thy ===== *)
theory Answer_Properties
  imports Answer
begin

text \<open>
  Worker and event loop in every interleaving: an answer given by \<open>send\<close> reaches the client
  once.
\<close>

definition demo_ask :: "nat ask" where
  "demo_ask = \<lparr>ak_world = fst (add_pending demo_conn demo_world1), ak_pc = RP_guard (ASend 200 ''hi''),
     ak_queue = [], ak_open = True\<rparr>"

lemma demo_ask: "ask_init demo_conn 0 1 200 headers_new ''hi'' demo_ask"
proof -
  note A = add_pending_parts [OF demo_world1_inv, of demo_conn]
  let ?w = "fst (add_pending demo_conn demo_world1)"
  have new: "w_next demo_world1 = 1" "ep_request_counter (w_ep demo_world1) = 0" "pending_streams demo_world1 = []"
    "c_id demo_conn = 2" "pending_responses demo_world1 = []"
    by (simp_all add: demo_defs)
  have pend: "pending_responses ?w = pend_put 2 0 1 []"
    using new by (simp add: add_pending_def Let_def set_resp_def)
  have "pend_find (pending_responses ?w) 2 i = (if i = 0 then Some 1 else None)" for i
    by (simp add: pend pend_put_def pend_find_def um_put_def)
  moreover have "context_of demo_conn ?w = Some (0, remote_context_new demo_env 0 (demo_raw 2))"
    using demo_async_invoke(3) context_of_same [OF A(5)] by simp
  ultimately have "undisturbed demo_conn 0 ?w"
    using A(4) new by (simp add: undisturbed_def pend_find_def remote_context_new_def split: if_splits)
  then have "owing ?w demo_conn 0 1 (async_response_new 2 0)"
    using A(1,2,3) new by (simp add: owing_def async_response_new_def)
  then show ?thesis by (auto simp: ask_init_def demo_ask_def async_response_new_def intro!: exI)
qed

lemma demo_ask_env: "\<forall>E \<in> {demo_env}. env_open E" "demo_env \<in> {demo_env}" "ak_open demo_ask" "c_id demo_conn = 2"
  "may_lose {demo_env} = False" "w_calls (ak_world demo_ask) = []"
  using demo_async_invoke(9) add_pending_parts(6) [OF demo_world1_inv, of demo_conn]
  by (simp_all add: env_open_def demo_env_def demo_ask_def demo_conn_def demo_raw_def may_lose_def)

text \<open>
  C13. In every interleaving of \<open>send\<close> with wakeups, writes, polls and the close of the
  connection, and whatever fails, the client has received nothing or exactly one message for
  the request: the worker's answer, complete, or one error when a wakeup failed or the manager
  was gone. As long as the request is pending it has received nothing.
\<close>
theorem answer_at_most_once:
  assumes "ask_init conn rid ref code h body s" and "(ask_step Es conn ref)\<^sup>*\<^sup>* s t"
  shows "\<exists>out. net_calls (w_calls (ak_world t)) = net_calls (w_calls (ak_world s)) @ out \<and>
    (out = [] \<or> out = [MgHttpReply (c_id conn) code (c_str (headers_format False h)) body] \<or>
     out = [internal_server_error_reply conn] \<and> may_lose Es) \<and>
    (ak_open t \<and> pend_find (pending_responses (ak_world t)) (c_id conn) rid \<noteq> None \<longrightarrow> out = [])"
  using promise_outcome [of "may_lose Es" "reply_of conn code h body" "err_of conn"]
    answer.run_simulates [OF assms(2) answer.init_inv [OF assms(1)]] ask_abs_init [OF assms(1)]
  by (fastforce simp: ask_abs_def reply_of_def)

theorem answer_at_most_once_witness:
  "\<exists>t out. (ask_step {demo_env} demo_conn 1)\<^sup>*\<^sup>* demo_ask t \<and> ask_done t \<and> net_calls (w_calls (ak_world t)) = out \<and>
    (out = [] \<or> out = [MgHttpReply 2 200 (c_str (headers_format False headers_new)) ''hi''])"
proof -
  from answer.init_inv [OF demo_ask, of "{demo_env}"] ask_can_finish [OF _ demo_ask_env(3,1,2), of demo_conn 0 1 200 headers_new "''hi''"]
  obtain t where t: "(ask_step {demo_env} demo_conn 1)\<^sup>*\<^sup>* demo_ask t" "ask_done t" by (auto simp: demo_ask_env(5))
  from answer_at_most_once [OF demo_ask t(1)] t show ?thesis by (auto simp: demo_ask_env)
qed

text \<open>Where both threads have come to their end on an open connection, the answer is there.\<close>

lemma ask_done_answer:
  assumes init: "ask_init conn rid ref code h body s" and run: "(ask_step Es conn ref)\<^sup>*\<^sup>* s u"
    and env: "\<forall>E \<in> Es. env_open E" and u: "ask_done u" "ak_open u"
  shows "net_calls (w_calls (ak_world u)) = net_calls (w_calls (ak_world s)) @
      [MgHttpReply (c_id conn) code (c_str (headers_format False h)) body] \<and>
    pend_find (pending_responses (ak_world u)) (c_id conn) rid = None"
proof -
  have lossless: "may_lose Es = False" using env by (simp add: may_lose_def)
  note ok = answer.init_inv [OF init, of Es]
  from answer.run_inv [OF run ok] have "ask_ok False conn rid ref code h body u" by (simp add: lossless)
  note S = ask_done_settled [OF this u]
  from promise_outcome [OF answer.run_simulates [OF run ok, unfolded ask_abs_init [OF init]]]
  show ?thesis using ask_absD(2) [OF S u(2)] S by (simp add: lossless settled_def reply_of_def)
qed

text \<open>
  While the connection is open, the manager lives and wakeups succeed, \<open>send\<close> does what it
  promises: from every state the two threads can reach they can go on to an end, and there the
  client has received the answer, once, and the request is forgotten.
\<close>
theorem answer_completes:
  assumes "ask_init conn rid ref code h body s" and "(ask_step Es conn ref)\<^sup>*\<^sup>* s t" and "ak_open t"
    and "\<forall>E \<in> Es. env_open E" and "E \<in> Es"
  shows "\<exists>u. (ask_step Es conn ref)\<^sup>*\<^sup>* t u \<and> ask_done u \<and>
    net_calls (w_calls (ak_world u)) = net_calls (w_calls (ak_world s)) @
      [MgHttpReply (c_id conn) code (c_str (headers_format False h)) body] \<and>
    pend_find (pending_responses (ak_world u)) (c_id conn) rid = None"
proof -
  have lossless: "may_lose Es = False" using assms(4) by (simp add: may_lose_def)
  from answer.run_inv [OF assms(2) answer.init_inv [OF assms(1)]]
  have "ask_ok False conn rid ref code h body t" by (simp add: lossless)
  from ask_can_finish [OF this assms(3-5)] obtain u where u: "(ask_step Es conn ref)\<^sup>*\<^sup>* t u" "ask_done u" "ak_open u"
    by blast
  have "(ask_step Es conn ref)\<^sup>*\<^sup>* s u" using assms(2) u(1) by (rule rtranclp_trans)
  from ask_done_answer [OF assms(1) this assms(4) u(2,3)] u(1,2) show ?thesis by blast
qed

theorem answer_completes_witness:
  "\<exists>u. (ask_step {demo_env} demo_conn 1)\<^sup>*\<^sup>* demo_ask u \<and> ask_done u \<and>
    net_calls (w_calls (ak_world u)) = [MgHttpReply 2 200 (c_str (headers_format False headers_new)) ''hi'']"
  using answer_completes [OF demo_ask rtranclp.rtrancl_refl demo_ask_env(3,1,2)] by (auto simp: demo_ask_env)

end
