(* ===== verification/Fair_Runs.thy ===== *)
theory Fair_Runs
  imports Interfaces
begin

text \<open>
  Fair infinite runs of a transition system, and the locale \<open>fair_progress\<close>: what a system
  has to offer for its goal to be reached in every fair run, and not only in some run.
\<close>

subsection \<open>Runs\<close>

text \<open>
  An infinite run may stutter. An action is treated fairly when it cannot be possible for ever
  from some point on without being taken.
\<close>

definition stuttering_run :: "('s \<Rightarrow> 's \<Rightarrow> bool) \<Rightarrow> (nat \<Rightarrow> 's) \<Rightarrow> bool" where
  "stuttering_run step \<sigma> \<longleftrightarrow> (\<forall>n. \<sigma> (Suc n) = \<sigma> n \<or> step (\<sigma> n) (\<sigma> (Suc n)))"

definition weakly_fair :: "('s \<Rightarrow> 's \<Rightarrow> bool) \<Rightarrow> ('s \<Rightarrow> 's \<Rightarrow> bool) \<Rightarrow> (nat \<Rightarrow> 's) \<Rightarrow> bool" where
  "weakly_fair step act \<sigma> \<longleftrightarrow>
     (\<forall>n. (\<forall>m \<ge> n. \<exists>t. step (\<sigma> m) t \<and> act (\<sigma> m) t) \<longrightarrow>
          (\<exists>m \<ge> n. step (\<sigma> m) (\<sigma> (Suc m)) \<and> act (\<sigma> m) (\<sigma> (Suc m))))"

lemma run_reaches:
  assumes "stuttering_run step \<sigma>" "\<And>s t. step s t \<Longrightarrow> step' s t"
  shows "step'\<^sup>*\<^sup>* (\<sigma> 0) (\<sigma> n)"
proof (induction n)
  case (Suc n)
  have "\<sigma> (Suc n) = \<sigma> n \<or> step' (\<sigma> n) (\<sigma> (Suc n))" using assms by (auto simp: stuttering_run_def)
  with Suc show ?case by (auto intro: rtranclp.rtrancl_into_rtrancl)
qed simp

text \<open>What cannot come back holds all along a path to where it still holds.\<close>

lemma path_within:
  assumes "step\<^sup>*\<^sup>* s t" "P t" "\<And>s t. step s t \<Longrightarrow> P t \<Longrightarrow> P s"
  shows "(\<lambda>s t. step s t \<and> P t)\<^sup>*\<^sup>* s t"
  using assms(1,2)
proof (induction rule: rtranclp_induct)
  case (step t u)
  then have "(\<lambda>s t. step s t \<and> P t)\<^sup>*\<^sup>* s t" "step t u \<and> P u" using assms(3) by blast+
  then show ?case by (rule rtranclp.rtrancl_into_rtrancl)
qed simp

text \<open>A path that ends in a state without actions is the beginning of a fair run.\<close>

lemma fair_run_of_path:
  assumes "step\<^sup>*\<^sup>* s t" and quiet: "\<And>a u. step t u \<Longrightarrow> \<not> act a t u"
  shows "\<exists>\<sigma>. \<sigma> 0 = s \<and> stuttering_run step \<sigma> \<and> (\<forall>a. weakly_fair step (act a) \<sigma>)"
proof -
  from assms(1) have "\<exists>\<sigma> k. \<sigma> 0 = s \<and> stuttering_run step \<sigma> \<and> (\<forall>m \<ge> k. \<sigma> m = t)"
  proof (induction rule: converse_rtranclp_induct)
    case base
    show ?case by (rule exI [of _ "\<lambda>n. t"]) (simp add: stuttering_run_def)
  next
    case (step s u)
    then obtain \<sigma> k where \<sigma>: "\<sigma> 0 = u" "stuttering_run step \<sigma>" "\<forall>m \<ge> k. \<sigma> m = t" by blast
    let ?\<tau> = "\<lambda>n. case n of 0 \<Rightarrow> s | Suc m \<Rightarrow> \<sigma> m"
    have "stuttering_run step ?\<tau>"
      using \<sigma>(1,2) step.hyps(1) by (auto simp: stuttering_run_def split: nat.split)
    moreover have "\<forall>m \<ge> Suc k. ?\<tau> m = t" using \<sigma>(3) by (auto split: nat.split)
    ultimately show ?case by (intro exI [of _ ?\<tau>] exI [of _ "Suc k"]) simp
  qed
  then obtain \<sigma> k where \<sigma>: "\<sigma> 0 = s" "stuttering_run step \<sigma>" "\<forall>m \<ge> k. \<sigma> m = t" by blast
  have "weakly_fair step (act a) \<sigma>" for a
    unfolding weakly_fair_def
  proof (intro allI impI)
    fix n
    assume "\<forall>m \<ge> n. \<exists>u. step (\<sigma> m) u \<and> act a (\<sigma> m) u"
    then have "\<exists>u. step (\<sigma> (max n k)) u \<and> act a (\<sigma> (max n k)) u" by simp
    with \<sigma>(3) quiet show "\<exists>m \<ge> n. step (\<sigma> m) (\<sigma> (Suc m)) \<and> act a (\<sigma> m) (\<sigma> (Suc m))" by auto
  qed
  with \<sigma>(1,2) show ?thesis by blast
qed

text \<open>
  The rule for inevitability: in every state short of the goal one action is possible and brings
  the system closer, and nothing else takes it further away or makes another action the one
  that helps.
\<close>

locale fair_progress =
  fixes step :: "'s \<Rightarrow> 's \<Rightarrow> bool"
    and inv :: "'s \<Rightarrow> bool"
    and taken :: "'a \<Rightarrow> 's \<Rightarrow> 's \<Rightarrow> bool"
    and helpful :: "'s \<Rightarrow> 'a"
    and left :: "'s \<Rightarrow> nat"
    and goal :: "'s \<Rightarrow> bool"
  assumes step_inv: "inv s \<Longrightarrow> step s t \<Longrightarrow> inv t"
    and enabled: "inv s \<Longrightarrow> \<not> goal s \<Longrightarrow> \<exists>t. step s t \<and> taken (helpful s) s t"
    and helps: "inv s \<Longrightarrow> \<not> goal s \<Longrightarrow> step s t \<Longrightarrow> taken (helpful s) s t \<Longrightarrow> left t < left s"
    and keeps: "inv s \<Longrightarrow> \<not> goal s \<Longrightarrow> step s t \<Longrightarrow> left t < left s \<or> left t = left s \<and> helpful t = helpful s"
begin

lemma run_invariant:
  assumes "stuttering_run step \<sigma>" "inv (\<sigma> 0)"
  shows "inv (\<sigma> n)"
proof (induction n)
  case 0
  show ?case by (rule assms(2))
next
  case (Suc n)
  then show ?case using assms(1) step_inv by (metis stuttering_run_def)
qed

lemma comes_closer:
  assumes run: "stuttering_run step \<sigma>" and inv: "inv (\<sigma> 0)"
    and fair: "\<And>a. weakly_fair step (taken a) \<sigma>" and never: "\<And>n. \<not> goal (\<sigma> n)"
  shows "\<exists>m > n. left (\<sigma> m) < left (\<sigma> n)"
proof (rule ccontr)
  assume "\<not> (\<exists>m > n. left (\<sigma> m) < left (\<sigma> n))"
  then have no: "\<not> left (\<sigma> m) < left (\<sigma> n)" if "n < m" for m using that by blast
  have same: "left (\<sigma> (n + k)) = left (\<sigma> n) \<and> helpful (\<sigma> (n + k)) = helpful (\<sigma> n)" for k
  proof (induction k)
    case (Suc k)
    have "\<sigma> (Suc (n + k)) = \<sigma> (n + k) \<or> step (\<sigma> (n + k)) (\<sigma> (Suc (n + k)))"
      using run by (simp add: stuttering_run_def)
    with keeps [OF run_invariant [OF run inv] never, of "n + k"] Suc no [of "Suc (n + k)"] show ?case
      by fastforce
  qed simp
  let ?a = "helpful (\<sigma> n)"
  have "\<exists>t. step (\<sigma> m) t \<and> taken ?a (\<sigma> m) t" if "n \<le> m" for m
    using enabled [OF run_invariant [OF run inv] never, of m] same [of "m - n"] that by simp
  with fair [of ?a] obtain m where m: "n \<le> m" "step (\<sigma> m) (\<sigma> (Suc m))" "taken ?a (\<sigma> m) (\<sigma> (Suc m))"
    unfolding weakly_fair_def by blast
  have "left (\<sigma> (Suc m)) < left (\<sigma> m)"
    using helps [OF run_invariant [OF run inv] never m(2)] m(1,3) same [of "m - n"] by simp
  with no [of "Suc m"] same [of "m - n"] m(1) show False by simp
qed

lemma inevitable:
  assumes "stuttering_run step \<sigma>" and "inv (\<sigma> 0)" and "\<And>a. weakly_fair step (taken a) \<sigma>"
  shows "\<exists>n. goal (\<sigma> n)"
proof (rule ccontr)
  assume "\<not> (\<exists>n. goal (\<sigma> n))"
  then have never: "\<not> goal (\<sigma> n)" for n by blast
  have False for n :: nat
  proof (induction "left (\<sigma> n)" arbitrary: n rule: less_induct)
    case less
    from comes_closer [OF assms never, of n] obtain m where "left (\<sigma> m) < left (\<sigma> n)" by blast
    then show False by (rule less)
  qed
  then show False .
qed

lemma inevitable_for_good:
  assumes "stuttering_run step \<sigma>" and "inv (\<sigma> 0)" and "\<And>a. weakly_fair step (taken a) \<sigma>"
    and stays: "\<And>s t. inv s \<Longrightarrow> goal s \<Longrightarrow> step s t \<Longrightarrow> goal t"
  shows "\<exists>n. \<forall>m \<ge> n. goal (\<sigma> m)"
proof -
  from inevitable [OF assms(1-3)] obtain n where n: "goal (\<sigma> n)" by blast
  have "goal (\<sigma> (n + k))" for k
  proof (induction k)
    case (Suc k)
    have "\<sigma> (Suc (n + k)) = \<sigma> (n + k) \<or> step (\<sigma> (n + k)) (\<sigma> (Suc (n + k)))"
      using assms(1) by (simp add: stuttering_run_def)
    with Suc stays [OF run_invariant [OF assms(1,2)]] show ?case by auto
  qed (simp add: n)
  then show ?thesis using le_Suc_ex by blast
qed

end

end
