(* ===== verification/Fairness.thy ===== *)
theory Fairness
  imports Fair_Runs Channel_Properties Answer_Properties
begin

text \<open>
  What happens in every fair run, not only in some: an answer given by \<open>send\<close> and a streamed
  answer arrive, as long as the connection stays open, wakeups succeed and the threads are
  scheduled. Both are clients of the locale \<open>fair_progress\<close>.
\<close>

text \<open>The actions that have to be treated fairly. A write matters when it lets a producer go on.\<close>

datatype loop_action = By_worker | By_wakeup | By_write

subsection \<open>\<open>send\<close>\<close>

definition open_ask_step :: "'p mg_env set \<Rightarrow> mg_connection \<Rightarrow> nat \<Rightarrow> 'p ask \<Rightarrow> 'p ask \<Rightarrow> bool" where
  "open_ask_step Es conn ref s t \<longleftrightarrow> ask_step Es conn ref s t \<and> ak_open t"

fun ask_taken :: "loop_action \<Rightarrow> 'p ask \<Rightarrow> 'p ask \<Rightarrow> bool" where
  "ask_taken By_worker s t \<longleftrightarrow> ak_pc t \<noteq> ak_pc s"
| "ask_taken By_wakeup s t \<longleftrightarrow> (\<exists>d. ak_queue s = d # ak_queue t)"
| "ask_taken By_write s t \<longleftrightarrow> False"

definition ask_left :: "'p ask \<Rightarrow> nat" where
  "ask_left s = pc_left (ak_pc s) + length (ak_queue s)"

definition ask_helpful :: "'p ask \<Rightarrow> loop_action" where
  "ask_helpful s = (if ak_queue s = [] then By_worker else By_wakeup)"

definition ask_inv ::
  "'p mg_env set \<Rightarrow> mg_connection \<Rightarrow> u64 \<Rightarrow> nat \<Rightarrow> int \<Rightarrow> headers \<Rightarrow> string \<Rightarrow> 'p ask \<Rightarrow> bool" where
  "ask_inv Es conn rid ref code h body s \<longleftrightarrow>
     ask_ok False conn rid ref code h body s \<and> ak_open s \<and> (\<forall>E \<in> Es. env_open E) \<and> Es \<noteq> {}"

lemma worker_left:
  assumes "ask_ok False conn rid ref code h body s" "ak_open s" "env_open E" "ak_pc s \<noteq> RP_done None"
    and "response_step E ref (ak_pc s) (ak_world s) = Some (pc', w')"
  shows "pc_left pc' + length (queued E (drop (length (w_calls (ak_world s))) (w_calls w'))) < pc_left (ak_pc s)"
  using assms(1,2)
proof (cases rule: ask_ok_cases)
  case (owing r)
  then have r: "w_resp (ak_world s) ref = Some r" "ar_conn r = c_id conn" "ar_id r = rid" by (simp_all add: owing_def)
  from owing(2) assms(3-5) r show ?thesis
    by (cases rule: ask_phase.cases)
      (auto simp: env_open_def update_resp_def set_resp_def emit_def split: option.splits)
next
  case settled
  with assms(4,5) show ?thesis by (auto simp: update_resp_def set_resp_def split: option.splits)
qed

lemma ask_moves:
  assumes "ask_inv Es conn rid ref code h body s" "open_ask_step Es conn ref s t"
  shows "ask_left t < ask_left s \<or> ak_pc t = ak_pc s \<and> ak_queue t = ak_queue s"
proof -
  from assms(2) have "ask_step Es conn ref s t" "ak_open t" by (simp_all add: open_ask_step_def)
  then show ?thesis
  proof (cases rule: ask_step.cases)
    case (ask_worker E pc' w')
    with worker_left [of conn rid ref code h body s E pc' w'] assms(1) show ?thesis
      by (simp add: ask_inv_def ask_left_def)
  qed (simp_all add: ask_left_def)
qed

lemma ask_taken_moves: "ask_taken a s t \<Longrightarrow> \<not> (ak_pc t = ak_pc s \<and> ak_queue t = ak_queue s)"
  by (cases a) (auto dest: arg_cong [of _ _ length])

lemma ask_enabled:
  assumes "ask_inv Es conn rid ref code h body s" "\<not> ask_done s"
  shows "\<exists>t. open_ask_step Es conn ref s t \<and> ask_taken (ask_helpful s) s t"
proof (cases "ak_queue s")
  case Nil
  from assms(1) obtain E where E: "E \<in> Es" "env_open E" and ok: "ask_ok False conn rid ref code h body s" "ak_open s"
    by (auto simp: ask_inv_def)
  from ask_progress [OF ok assms(2) E] obtain t where t: "ask_step Es conn ref s t" "ak_open t"
    "pc_left (ak_pc t) + length (ak_queue t) < pc_left (ak_pc s)" by (auto simp: Nil)
  then have "ak_pc t \<noteq> ak_pc s" by auto
  with t(1,2) Nil show ?thesis by (intro exI [of _ t]) (simp add: open_ask_step_def ask_helpful_def)
next
  case (Cons d ds)
  from assms(1) have ok: "ask_ok False conn rid ref code h body s" "ak_open s" by (simp_all add: ask_inv_def)
  from ok have "d = size_t_bytes rid \<and> world_inv (ak_world s)"
  proof (cases rule: ask_ok_cases)
    case (owing r)
    from owing(2) Cons have "d = size_t_bytes rid" by (cases rule: ask_phase.cases) auto
    with owing(1) show ?thesis by (simp add: owing_def)
  qed (simp add: Cons)
  with handle_wakeup_safe [of "ak_world s" d rid conn] obtain w' where "handle_wakeup conn d (ak_world s) = Some w'" by auto
  from ask_step.ask_wakeup [OF ok(2) Cons this, of Es ref] ok(2) Cons show ?thesis
    by (intro exI [of _ "s\<lparr>ak_world := w', ak_queue := ds\<rparr>"]) (simp add: open_ask_step_def ask_helpful_def)
qed

interpretation fair_answer: fair_progress "open_ask_step Es conn ref" "ask_inv Es conn rid ref code h body"
    ask_taken ask_helpful ask_left ask_done
proof unfold_locales
  fix s t :: "'a ask"
  assume inv: "ask_inv Es conn rid ref code h body s"
  show "\<exists>t. open_ask_step Es conn ref s t \<and> ask_taken (ask_helpful s) s t" if "\<not> ask_done s"
    by (rule ask_enabled [OF inv that])
  assume step: "open_ask_step Es conn ref s t"
  show "ask_inv Es conn rid ref code h body t"
    using inv step ask_step_ok [of Es conn ref s t False rid code h body] by (simp add: ask_inv_def open_ask_step_def)
  note M = ask_moves [OF inv step]
  show "ask_left t < ask_left s" if "ask_taken (ask_helpful s) s t"
    using M ask_taken_moves [OF that] by blast
  show "ask_left t < ask_left s \<or> ask_left t = ask_left s \<and> ask_helpful t = ask_helpful s"
    using M by (auto simp: ask_left_def ask_helpful_def)
qed

text \<open>Once it is done nothing is left to do.\<close>

lemma ask_done_quiet:
  assumes "ask_done s" "open_ask_step Es conn ref s t"
  shows "\<not> ask_taken a s t"
  using assms by (cases a) (auto simp: ask_done_def open_ask_step_def elim!: ask_stepE)

lemma ask_stays_open: "ask_step Es conn ref s t \<Longrightarrow> ak_open t \<Longrightarrow> ak_open s"
  by (auto elim!: ask_stepE)

lemma open_ask_path: "(ask_step Es conn ref)\<^sup>*\<^sup>* s t \<Longrightarrow> ak_open t \<Longrightarrow> (open_ask_step Es conn ref)\<^sup>*\<^sup>* s t"
  unfolding open_ask_step_def [abs_def] by (rule path_within) (auto intro: ask_stays_open)

text \<open>
  C12. In every fair run in which the connection stays open, the manager lives and wakeups
  succeed, a moment comes from which on \<open>send\<close> has returned, the client has received the
  answer, once and nothing else, and the request is forgotten.
\<close>
theorem answer_inevitable:
  assumes "ask_init conn rid ref code h body (\<sigma> 0)"
    and "stuttering_run (open_ask_step Es conn ref) \<sigma>"
    and "\<forall>a. weakly_fair (open_ask_step Es conn ref) (ask_taken a) \<sigma>"
    and "\<forall>E \<in> Es. env_open E" and "Es \<noteq> {}"
  shows "\<exists>n. \<forall>m \<ge> n. ask_done (\<sigma> m) \<and>
    net_calls (w_calls (ak_world (\<sigma> m))) = net_calls (w_calls (ak_world (\<sigma> 0))) @
      [MgHttpReply (c_id conn) code (c_str (headers_format False h)) body] \<and>
    pend_find (pending_responses (ak_world (\<sigma> m))) (c_id conn) rid = None"
proof -
  have lossless: "may_lose Es = False" using assms(4) by (simp add: may_lose_def)
  have inv0: "ask_inv Es conn rid ref code h body (\<sigma> 0)"
    using answer.init_inv [OF assms(1), of Es] assms(1,4,5) by (simp add: ask_inv_def lossless ask_init_def)
  have stays: "ask_done t" if "ask_inv Es conn rid ref code h body s" "ask_done s" "open_ask_step Es conn ref s t" for s t
    using ask_moves [OF that(1,3)] that(2) by (simp add: ask_done_def ask_left_def)
  have "\<exists>n. \<forall>m \<ge> n. ask_done (\<sigma> m)"
    by (rule fair_answer.inevitable_for_good [OF assms(2) inv0]) (use assms(3) stays in blast)+
  then obtain n where "\<forall>m \<ge> n. ask_done (\<sigma> m)" ..
  moreover from run_reaches [OF assms(2), of "ask_step Es conn ref"] have "(ask_step Es conn ref)\<^sup>*\<^sup>* (\<sigma> 0) (\<sigma> m)" for m
    by (simp add: open_ask_step_def)
  moreover have "ak_open (\<sigma> m)" for m
    using fair_answer.run_invariant [OF assms(2) inv0, of m] by (simp add: ask_inv_def)
  ultimately show ?thesis using ask_done_answer [OF assms(1) _ assms(4)] by blast
qed

theorem answer_inevitable_witness:
  "\<exists>(\<sigma> :: nat \<Rightarrow> nat ask) n. \<sigma> 0 = demo_ask \<and> ask_done (\<sigma> n) \<and>
    net_calls (w_calls (ak_world (\<sigma> n))) = [MgHttpReply 2 200 (c_str (headers_format False headers_new)) ''hi'']"
proof -
  from answer.init_inv [OF demo_ask, of "{demo_env}"] ask_can_finish [OF _ demo_ask_env(3,1,2), of demo_conn 0 1 200 headers_new "''hi''"]
  obtain t where t: "(ask_step {demo_env} demo_conn 1)\<^sup>*\<^sup>* demo_ask t" "ask_done t" "ak_open t"
    by (auto simp: demo_ask_env(5))
  obtain \<sigma> where
    \<sigma>: "\<sigma> 0 = demo_ask" "stuttering_run (open_ask_step {demo_env} demo_conn 1) \<sigma>"
      "\<forall>a. weakly_fair (open_ask_step {demo_env} demo_conn 1) (ask_taken a) \<sigma>"
    using fair_run_of_path [where act = ask_taken, OF open_ask_path [OF t(1,3)]] ask_done_quiet [OF t(2)] by blast
  from answer_inevitable [OF demo_ask [folded \<sigma>(1)] \<sigma>(2,3) demo_ask_env(1)] obtain n where
    "ask_done (\<sigma> n)" "net_calls (w_calls (ak_world (\<sigma> n))) = net_calls (w_calls (ak_world (\<sigma> 0))) @
      [MgHttpReply (c_id demo_conn) 200 (c_str (headers_format False headers_new)) ''hi'']" by auto
  with \<sigma>(1) show ?thesis by (intro exI [of _ \<sigma>] exI [of _ n]) (simp add: demo_ask_env)
qed

subsection \<open>Streams\<close>

definition open_run_step :: "'p mg_env set \<Rightarrow> mg_connection \<Rightarrow> nat \<Rightarrow> 'p run \<Rightarrow> 'p run \<Rightarrow> bool" where
  "open_run_step Es conn ref s t \<longleftrightarrow> run_step Es conn ref s t \<and> rn_open t"

fun run_taken :: "nat \<Rightarrow> loop_action \<Rightarrow> 'p run \<Rightarrow> 'p run \<Rightarrow> bool" where
  "run_taken ref By_worker s t \<longleftrightarrow> rn_producer t \<noteq> rn_producer s"
| "run_taken ref By_wakeup s t \<longleftrightarrow> (\<exists>d. rn_queue s = d # rn_queue t)"
| "run_taken ref By_write s t \<longleftrightarrow> state_is ref S_flush s \<and> state_is ref S_empty t"

definition run_measure :: "nat \<Rightarrow> 'p run \<Rightarrow> nat" where
  "run_measure ref s = 10 * length (run_left ref s) + turn ref s"

definition run_helpful :: "nat \<Rightarrow> 'p run \<Rightarrow> loop_action" where
  "run_helpful ref s =
     (if rn_queue s \<noteq> [] then By_wakeup
      else if rn_producer s = P_loop \<and> state_is ref S_flush s then By_write
      else By_worker)"

definition run_inv :: "'p mg_env set \<Rightarrow> mg_connection \<Rightarrow> u64 \<Rightarrow> nat \<Rightarrow> 'p run \<Rightarrow> bool" where
  "run_inv Es conn rid ref s \<longleftrightarrow>
     run_ok False conn rid ref s \<and> rn_open s \<and> (\<forall>E \<in> Es. env_open E) \<and> (\<exists>E \<in> Es. 0 < env_io_size E)"

definition same_place :: "'p run \<Rightarrow> 'p run \<Rightarrow> bool" where
  "same_place s t \<longleftrightarrow> rn_producer t = rn_producer s \<and> rn_queue t = rn_queue s"

lemma run_inv_step:
  assumes "run_inv Es conn rid ref s" "open_run_step Es conn ref s t"
  shows "run_inv Es conn rid ref t"
    and "run_left ref t \<noteq> run_left ref s \<Longrightarrow> run_measure ref t < run_measure ref s"
proof -
  from assms have "run_ok False conn rid ref t" and
    abs: "run_abs ref t = run_abs ref s \<or> channel_step False (c_id conn) (run_abs ref s) (run_abs ref t)"
    using run_step_ok [of Es conn ref s t False rid] by (auto simp: run_inv_def open_run_step_def)
  with assms show "run_inv Es conn rid ref t" by (simp add: run_inv_def open_run_step_def)
  have "run_left ref t = run_left ref s \<or> Suc (length (run_left ref t)) = length (run_left ref s)"
    using abs assms by (auto simp: run_abs_def run_inv_def open_run_step_def elim: channel_step.cases)
  then show "run_measure ref t < run_measure ref s" if "run_left ref t \<noteq> run_left ref s"
    using that turn_le [of ref t] by (auto simp: run_measure_def)
qed

lemma stream_step_moves: "stream_step E ref pc w = Some (pc', w') \<Longrightarrow> pc \<noteq> SP_done \<Longrightarrow> pc' \<noteq> pc"
  by (cases pc) (auto split: option.splits if_splits)

text \<open>A call of the worker brings it closer to the end of its turn.\<close>

lemma call_turn:
  assumes "run_ok False conn rid ref s" "rn_open s" "env_open E" "rn_producer s = P_call pc cl" "pc \<noteq> SP_done"
    and step: "stream_step E ref pc (rn_world s) = Some (pc', w')"
  shows "turn ref (s\<lparr>rn_world := w', rn_producer := P_call pc' cl,
      rn_queue := rn_queue s @ queued E (drop (length (w_calls (rn_world s))) (w_calls w'))\<rparr>) < turn ref s"
  using assms(1,2)
proof (cases rule: run_ok_cases)
  case (at st d)
  note strm = stream_at_strm [OF at(1)]
  from at(2) assms(3-5) step strm show ?thesis
    by (cases rule: phase.cases) (auto simp: update_strm_def turn_def env_open_def emit_def split: if_splits)
next
  case over
  with assms(4,5) show ?thesis by auto
qed

text \<open>A read of the state that lets the worker go on, or tells it to stop.\<close>

lemma wait_turn:
  assumes "run_ok False conn rid ref s" "rn_open s" "rn_producer s = P_loop" "w_strm (rn_world s) ref = Some x"
    and "async_stream_wait (\<lambda>i. async_stream_get_state x) 0 = Some b"
  shows "b \<and> turn ref s = 7"
  using assms(1,2)
proof (cases rule: run_ok_cases)
  case (at st d)
  from assms(5) have "wait_done (as_state x)" "b = (as_state x = S_empty)"
    by (simp_all add: wait_const async_stream_get_state_def)
  moreover have "as_state x = st" using stream_at_strm [OF at(1)] assms(4) by simp
  ultimately have st: "b = (st = S_empty)" "st = S_empty \<or> st = S_failed \<or> st = S_completed" by (auto simp: wait_done_def)
  from at(2) st assms(3) state_is_at [OF at(1)] show ?thesis
    by (cases rule: phase.cases) (auto simp: turn_def split: if_splits)
next
  case over
  with assms(3) show ?thesis by simp
qed

lemma return_turn:
  assumes "run_ok False conn rid ref s" "rn_open s" "rn_producer s = P_call SP_done cl"
  shows "turn ref (s\<lparr>rn_producer := if cl then P_stop else P_loop\<rparr>) < turn ref s"
  using assms(3) by (simp add: turn_def)

lemma same_strm_turn:
  assumes "same_place s t" "\<And>st. state_is ref st t = state_is ref st s"
  shows "turn ref t = turn ref s \<and> run_helpful ref t = run_helpful ref s"
  using assms by (simp add: same_place_def turn_def run_helpful_def)

lemma write_turn:
  assumes ok: "run_ok False conn rid ref s" and op: "rn_open s"
    and run: "handle_write E (conn\<lparr>c_send_len := len\<rparr>) (rn_world s) = Some w'"
  shows "turn ref (s\<lparr>rn_world := w'\<rparr>) < turn ref s \<and> run_helpful ref s = By_write \<or>
    turn ref (s\<lparr>rn_world := w'\<rparr>) = turn ref s \<and> run_helpful ref (s\<lparr>rn_world := w'\<rparr>) = run_helpful ref s"
  using ok op
proof (cases rule: run_ok_cases)
  case (at st d)
  define st' where "st' = (if st = S_flush \<and> len < env_io_size E then S_empty else st)"
  from stream_at_write_any [OF at(1), of E len] run have
    w': "stream_at w' conn rid ref st' d" "st' = st \<or> st = S_flush \<and> st' = S_empty" by (auto simp: st'_def)
  have "state_is ref x (s\<lparr>rn_world := w'\<rparr>) \<longleftrightarrow> st' = x" "state_is ref x s \<longleftrightarrow> st = x" for x
    using state_is_at [OF at(1)] state_is_at [of "s\<lparr>rn_world := w'\<rparr>" conn rid ref st' d] w'(1) by auto
  with w'(2) show ?thesis
    by (auto simp: turn_def run_helpful_def split: producer.split)
next
  case over
  then show ?thesis by (auto simp: turn_def run_helpful_def)
qed

lemma poll_turn:
  assumes ok: "run_ok False conn rid ref s" and op: "rn_open s" and run: "handle_poll conn (rn_world s) = Some w'"
  shows "turn ref (s\<lparr>rn_world := w'\<rparr>) = turn ref s \<and> run_helpful ref (s\<lparr>rn_world := w'\<rparr>) = run_helpful ref s"
proof -
  have "world_inv (rn_world s)" "calm conn (rn_world s)"
    using ok op by (auto simp: run_ok_def stream_at_def stream_over_def)
  from calm_poll [OF this run] have "w_strm w' = w_strm (rn_world s)" by simp
  then show ?thesis by (intro same_strm_turn) (simp_all add: same_place_def state_is_def)
qed

lemma wakeup_left:
  assumes ok: "run_ok False conn rid ref s" and op: "rn_open s" and q: "rn_queue s = d # ds"
    and run: "handle_wakeup conn d (rn_world s) = Some w'"
  shows "run_left ref (s\<lparr>rn_world := w', rn_queue := ds\<rparr>) \<noteq> run_left ref s"
  using ok op
proof (cases rule: run_ok_cases)
  case (at st x)
  from ok op have "calm conn (rn_world s)" by (simp add: run_ok_def)
  from wakeup_step_ok [OF at(1) this _ q _ run op] at(2,3) q
  have "channel_step False (c_id conn) (run_abs ref s) (run_abs ref (s\<lparr>rn_world := w', rn_queue := ds\<rparr>))" by simp
  then show ?thesis by (cases rule: channel_step.cases) (auto simp: run_abs_def op)
next
  case over
  with q show ?thesis by simp
qed

lemma run_taken_helpful:
  assumes "run_taken ref (run_helpful ref s) s t"
  shows "\<not> (same_place s t \<and> run_helpful ref t = run_helpful ref s)"
proof (cases "run_helpful ref s")
  case By_write
  then have "run_helpful ref t = By_write \<Longrightarrow> state_is ref S_flush t" by (simp add: run_helpful_def split: if_splits)
  with assms By_write show ?thesis by (auto simp: state_is_def split: option.splits)
qed (use assms in \<open>auto simp: same_place_def dest: arg_cong [of _ _ length]\<close>)

text \<open>
  Every step brings the run closer to its end or leaves it where it is; without a worker's or a
  wakeup's step, only a write the worker waits for does.
\<close>

lemma run_moves:
  assumes inv: "run_inv Es conn rid ref s" and step: "open_run_step Es conn ref s t"
  shows "run_measure ref t < run_measure ref s \<and>
      (same_place s t \<longrightarrow> run_helpful ref s = By_write) \<and> (rn_queue s = [] \<longrightarrow> run_helpful ref s = By_worker \<longrightarrow> rn_producer t \<noteq> rn_producer s) \<or>
    same_place s t \<and> run_measure ref t = run_measure ref s \<and> run_helpful ref t = run_helpful ref s"
    (is "?closer \<or> ?same")
proof -
  from inv have ok: "run_ok False conn rid ref s" "rn_open s" and env: "\<And>E. E \<in> Es \<Longrightarrow> env_open E"
    by (auto simp: run_inv_def)
  have less: "run_measure ref t < run_measure ref s" if "turn ref t < turn ref s"
    using run_inv_step(2) [OF inv step] that by (cases "run_left ref t = run_left ref s") (auto simp: run_measure_def)
  have worker: ?thesis if "turn ref t < turn ref s" "rn_producer t \<noteq> rn_producer s"
    using less that by (simp add: same_place_def)
  have loop: ?thesis if "same_place s t" "run_left ref t = run_left ref s"
    "turn ref t < turn ref s \<and> run_helpful ref s = By_write \<or> turn ref t = turn ref s \<and> run_helpful ref t = run_helpful ref s"
    using that less by (auto simp: run_measure_def)
  from step have "run_step Es conn ref s t" "rn_open t" by (simp_all add: open_run_step_def)
  then show ?thesis
  proof (cases rule: run_step.cases)
    case (run_wait_send x d ds)
    with wait_turn [OF ok run_wait_send(2-4)] show ?thesis by (intro worker) (auto simp: turn_def)
  next
    case (run_wait_close x)
    with wait_turn [OF ok run_wait_close(2-4)] show ?thesis by (intro worker) (auto simp: turn_def)
  next
    case (run_wait_stop x)
    with wait_turn [OF ok run_wait_stop(2-4)] show ?thesis by simp
  next
    case (run_call pc cl E pc' w')
    with call_turn [OF ok env run_call(2,3,5)] stream_step_moves [OF run_call(5,3)] show ?thesis
      by (intro worker) auto
  next
    case (run_return cl)
    with return_turn [OF ok run_return(2)] show ?thesis by (intro worker) auto
  next
    case (run_wakeup d ds w')
    have "run_left ref t \<noteq> run_left ref s" unfolding run_wakeup(1) by (rule wakeup_left [OF ok run_wakeup(3,4)])
    from run_inv_step(2) [OF inv step this] run_wakeup(1,3) show ?thesis
      by (auto simp: same_place_def)
  next
    case (run_write E len w')
    with write_turn [OF ok run_write(4)] run_ok_write [OF ok run_write(4)] ok(2) show ?thesis
      by (intro loop) (auto simp: same_place_def run_abs_def)
  next
    case (run_poll w')
    with poll_turn [OF ok run_poll(3)] run_ok_poll [OF ok run_poll(3)] ok(2) show ?thesis
      by (intro loop) (auto simp: same_place_def run_abs_def)
  next
    case (run_close conn' w')
    with step show ?thesis by (simp add: open_run_step_def)
  qed
qed

lemma run_enabled:
  assumes inv: "run_inv Es conn rid ref s" and "\<not> finished s"
  shows "\<exists>t. open_run_step Es conn ref s t \<and> run_taken ref (run_helpful ref s) s t"
proof -
  from inv obtain E where E: "E \<in> Es" "env_open E" "0 < env_io_size E" and
    ok: "run_ok False conn rid ref s" "rn_open s" by (auto simp: run_inv_def)
  consider (arrived) d ds where "rn_queue s = d # ds" | (full) "run_helpful ref s = By_write"
    | (work) "rn_queue s = []" "run_helpful ref s = By_worker"
    by (cases "rn_queue s"; cases "run_helpful ref s") (auto simp: run_helpful_def split: if_splits)
  then show ?thesis
  proof cases
    case arrived
    from ok have "d = size_t_bytes rid \<and> world_inv (rn_world s)"
    proof (cases rule: run_ok_cases)
      case (at st x)
      from at(2) arrived have "d = size_t_bytes rid" by (cases rule: phase.cases) auto
      with at(1) show ?thesis by (simp add: stream_at_def)
    qed (simp add: arrived)
    with handle_wakeup_safe [of "rn_world s" d rid conn] obtain w' where
      "handle_wakeup conn d (rn_world s) = Some w'" by auto
    from run_wakeup [OF ok(2) arrived this, of Es ref] ok(2) arrived show ?thesis
      by (intro exI [of _ "s\<lparr>rn_world := w', rn_queue := ds\<rparr>"]) (simp add: open_run_step_def run_helpful_def)
  next
    case full
    then have place: "rn_producer s = P_loop" "state_is ref S_flush s" by (auto simp: run_helpful_def split: if_splits)
    from ok obtain st x where at: "stream_at (rn_world s) conn rid ref st x"
      using place(1) by (cases rule: run_ok_cases) auto
    from state_is_at [OF at] place(2) have "st = S_flush" by blast
    with stream_at_write_any [OF at, of E 0] E(3) obtain w' where
      w': "handle_write E (conn\<lparr>c_send_len := 0\<rparr>) (rn_world s) = Some w'" "stream_at w' conn rid ref S_empty x" by auto
    have "state_is ref S_empty (s\<lparr>rn_world := w'\<rparr>)"
      using state_is_at [of "s\<lparr>rn_world := w'\<rparr>" conn rid ref S_empty x] w'(2) by simp
    with run_write [OF ok(2) E(1) w'(1), of ref] ok(2) place(2) full show ?thesis
      by (intro exI [of _ "s\<lparr>rn_world := w'\<rparr>"]) (simp add: open_run_step_def)
  next
    case work
    from run_progress [OF ok(1) assms(2) E ok(2)] obtain t where t: "run_step Es conn ref s t" "rn_open t"
      "turn ref t < turn ref s \<or> run_left ref t \<noteq> run_left ref s" by blast
    then have step: "open_run_step Es conn ref s t" by (simp add: open_run_step_def)
    have "run_measure ref t < run_measure ref s"
      using t(3) run_inv_step(2) [OF inv step] by (cases "run_left ref t = run_left ref s") (auto simp: run_measure_def)
    with run_moves [OF inv step] work step show ?thesis by auto
  qed
qed

interpretation fair_stream: fair_progress "open_run_step Es conn ref" "run_inv Es conn rid ref"
    "run_taken ref" "run_helpful ref" "run_measure ref" finished
proof unfold_locales
  fix s t :: "'a run"
  assume inv: "run_inv Es conn rid ref s"
  show "\<exists>t. open_run_step Es conn ref s t \<and> run_taken ref (run_helpful ref s) s t" if "\<not> finished s"
    by (rule run_enabled [OF inv that])
  assume step: "open_run_step Es conn ref s t"
  show "run_inv Es conn rid ref t" by (rule run_inv_step(1) [OF inv step])
  show "run_measure ref t < run_measure ref s \<or> run_measure ref t = run_measure ref s \<and> run_helpful ref t = run_helpful ref s"
    using run_moves [OF inv step] by blast
  show "run_measure ref t < run_measure ref s" if "run_taken ref (run_helpful ref s) s t"
    using run_moves [OF inv step] run_taken_helpful [OF that] by blast
qed

lemma finished_quiet:
  assumes "finished s" "stream_over (rn_world s) conn ref" "open_run_step Es conn ref s t"
  shows "\<not> run_taken ref a s t"
proof -
  have "\<not> state_is ref S_flush s" using assms(2) by (auto simp: stream_over_def state_is_def)
  with assms(1,3) show ?thesis by (cases a) (auto simp: finished_def open_run_step_def elim!: run_stepE)
qed

lemma run_stays_open: "run_step Es conn ref s t \<Longrightarrow> rn_open t \<Longrightarrow> rn_open s"
  by (auto elim!: run_stepE)

lemma open_run_path: "(run_step Es conn ref)\<^sup>*\<^sup>* s t \<Longrightarrow> rn_open t \<Longrightarrow> (open_run_step Es conn ref)\<^sup>*\<^sup>* s t"
  unfolding open_run_step_def [abs_def] by (rule path_within) (auto intro: run_stays_open)

text \<open>
  C8. In every fair run in which the connection stays open, the manager lives and wakeups
  succeed, and in which a client that reads makes room in the buffer again and again, a streamed
  answer comes to its end: from some moment on the producer has left its loop, the client has
  received all chunks in order and the terminal one, and the stream is completed.
\<close>
theorem async_stream_inevitable:
  assumes "run_init conn rid ref (\<sigma> 0)"
    and "stuttering_run (open_run_step Es conn ref) \<sigma>"
    and "\<forall>a. weakly_fair (open_run_step Es conn ref) (run_taken ref a) \<sigma>"
    and "\<forall>E \<in> Es. env_open E" and "E \<in> Es" and "0 < env_io_size E"
  shows "\<exists>n. \<forall>m \<ge> n. finished (\<sigma> m) \<and>
    (\<exists>x. w_strm (rn_world (\<sigma> m)) ref = Some x \<and> as_state x = S_completed) \<and>
    net_calls (w_calls (rn_world (\<sigma> m))) = net_calls (w_calls (rn_world (\<sigma> 0))) @
      map (MgHttpWriteChunk (c_id conn)) (rn_todo (\<sigma> 0) @ [''''])"
proof -
  have lossless: "may_lose Es = False" using assms(4) by (simp add: may_lose_def)
  have inv0: "run_inv Es conn rid ref (\<sigma> 0)"
    using chan.init_inv [OF assms(1), of Es] assms(1,4-6) by (auto simp: run_inv_def lossless run_init_def)
  have op: "rn_open (\<sigma> m)" for m
    using fair_stream.run_invariant [OF assms(2) inv0, of m] by (simp add: run_inv_def)
  have stays: "finished t" if "finished s" "open_run_step Es conn ref s t" for s t
    using that by (auto simp: finished_def open_run_step_def elim!: run_stepE)
  have "\<exists>n. \<forall>m \<ge> n. finished (\<sigma> m)"
    by (rule fair_stream.inevitable_for_good [OF assms(2) inv0]) (use assms(3) stays in blast)+
  then obtain n where "\<forall>m \<ge> n. finished (\<sigma> m)" ..
  moreover from run_reaches [OF assms(2), of "run_step Es conn ref"] have "(run_step Es conn ref)\<^sup>*\<^sup>* (\<sigma> 0) (\<sigma> m)" for m
    by (simp add: open_run_step_def)
  ultimately show ?thesis using finished_delivered [OF assms(1) _ assms(4)] op by blast
qed

theorem async_stream_inevitable_witness:
  "\<exists>(\<sigma> :: nat \<Rightarrow> nat run) n. finished (\<sigma> n) \<and>
    net_calls (w_calls (rn_world (\<sigma> n))) = net_calls (w_calls (rn_world (\<sigma> 0))) @
      [MgHttpWriteChunk 2 ''a'', MgHttpWriteChunk 2 ''b'', MgHttpWriteChunk 2 '''']"
proof -
  from demo_run obtain w :: "nat world" where init: "run_init demo_conn 0 2 (demo_run w)" by blast
  from chan.init_inv [OF init, of "{demo_env}"] run_can_finish [OF _ demo_run_open demo_run_env(1-3), of demo_conn 0 2 w]
  obtain t where t: "(run_step {demo_env} demo_conn 2)\<^sup>*\<^sup>* (demo_run w) t" "finished t" "rn_open t"
    "run_ok False demo_conn 0 2 t" by (auto simp: demo_run_env(4))
  have quiet: "\<not> run_taken 2 a t u" if "open_run_step {demo_env} demo_conn 2 t u" for a u
    using finished_quiet [OF t(2) _ that] finished_over [OF t(4,2,3)] by blast
  obtain \<sigma> where \<sigma>: "\<sigma> 0 = demo_run w" "stuttering_run (open_run_step {demo_env} demo_conn 2) \<sigma>"
      "\<forall>a. weakly_fair (open_run_step {demo_env} demo_conn 2) (run_taken 2 a) \<sigma>"
    using fair_run_of_path [where act = "run_taken 2", OF open_run_path [OF t(1,3)]] quiet by blast
  from async_stream_inevitable [OF init [folded \<sigma>(1)] \<sigma>(2,3) demo_run_env(1-3)] obtain n where
    "finished (\<sigma> n)" "net_calls (w_calls (rn_world (\<sigma> n))) = net_calls (w_calls (rn_world (\<sigma> 0))) @
      map (MgHttpWriteChunk (c_id demo_conn)) (rn_todo (\<sigma> 0) @ [''''])" by blast
  with \<sigma>(1) show ?thesis by (intro exI [of _ \<sigma>] exI [of _ n]) (simp add: demo_run_def demo_run_env(5))
qed

end
