(* ===== verification/Ownership_Properties.thy ===== *)
theory Ownership_Properties
  imports Ownership Examples
begin

text \<open>
  Ownership in every reachable state, and what is left when the manager is freed.
\<close>

subsection \<open>The invariant\<close>

definition ctxs_owned :: "'p sys \<Rightarrow> bool" where
  "ctxs_owned s \<longleftrightarrow>
     (\<forall>k. w_ctx (sy_world s) k \<noteq> None \<longrightarrow> (\<exists>c conn. sy_conns s c = Some conn \<and> c_fn_data conn = FnContext k))"

definition own_inv :: "'p sys \<Rightarrow> bool" where
  "own_inv s \<longleftrightarrow> sys_inv s \<and> ctxs_owned s \<and> certs_ok (sy_world s)"

lemma own_invD:
  assumes "own_inv s"
  shows "sys_inv s" and "ctxs_owned s" and "certs_ok (sy_world s)"
  using assms by (simp_all add: own_inv_def)

text \<open>Steps that change no connection, or only what mongoose keeps in it.\<close>

lemma own_kept:
  assumes "ctxs_owned s" "certs_ok (sy_world s)" "certs_kept (sy_world s) (sy_world t)"
    and "\<And>c conn. sy_conns s c = Some conn \<Longrightarrow> \<exists>conn'. sy_conns t c = Some conn' \<and> c_fn_data conn' = c_fn_data conn"
  shows "ctxs_owned t \<and> certs_ok (sy_world t)"
proof
  show "certs_ok (sy_world t)" by (rule certs_kept_ok [OF assms(2,3)])
  show "ctxs_owned t"
    using assms(1,4) certs_keptD(2) [OF assms(3)] unfolding ctxs_owned_def by metis
qed

lemma live_context:
  assumes "sys_inv s" "sy_conns s c = Some conn"
  obtains k ctx where "context_of (touched conn len tls) (sy_world s) = Some (k, ctx)" "rc_endpoint ctx = 0"
    "c_fn (touched conn len tls) = EventManagerContextHandler" "c_fn_data conn = FnContext k" "w_ctx (sy_world s) k = Some ctx"
proof -
  have ok: "conn_ok (sy_world s) c (touched conn len tls)" using sys_invD(4) [OF assms] by simp
  from conn_okD(1) [OF ok] obtain k ctx where
    "context_of (touched conn len tls) (sy_world s) = Some (k, ctx)" "rc_endpoint ctx = 0" by blast
  with conn_okD(2) [OF ok] context_of_ctx [of "touched conn len tls" "sy_world s" k ctx] that show ?thesis by simp
qed

lemma own_event:
  assumes inv: "own_inv s" and c: "sy_conns s c = Some conn" and ev: "event_enabled (sy_world s) c ev"
    and run: "mg_call_handler E (touched conn len tls) ev (sy_world s) = Some (conn', w')"
  defines "t \<equiv> s\<lparr>sy_world := w', sy_conns := (sy_conns s)(c \<mapsto> conn')\<rparr>"
  shows "ctxs_owned t \<and> certs_ok (sy_world t)"
proof -
  note sinv = own_invD(1) [OF inv] and owned = own_invD(2,3) [OF inv]
  note winv = sys_invD(1) [OF sinv]
  from live_context [OF sinv c, of len tls] obtain k ctx where
    ctx: "context_of (touched conn len tls) (sy_world s) = Some (k, ctx)" "rc_endpoint ctx = 0"
      "c_fn (touched conn len tls) = EventManagerContextHandler" by metis
  note run' = run [unfolded event_endpoint [OF ctx]]
  from live_event_safe [OF sinv c ev, of E len tls] run have conn': "conn' = touched conn len tls" by auto
  have conns: "\<exists>b. sy_conns t d = Some b \<and> c_fn_data b = c_fn_data a" if "sy_conns s d = Some a" for d a
    using that c by (auto simp: t_def conn')
  show ?thesis
  proof (cases "ev = MG_EV_TLS_HS")
    case True
    with run' have "setup_context E (touched conn len tls) (sy_world s) = Some w'" by (auto simp: with_conn_def)
    note S = setup_certs [OF winv ctx(1) this]
    have "certs_ok (sy_world t)" using S(1) owned(2) by (simp add: t_def)
    moreover have "w_ctx (sy_world t) k' = None \<longleftrightarrow> w_ctx (sy_world s) k' = None" for k' using S(2) by (simp add: t_def)
    ultimately show ?thesis using owned(1) conns unfolding ctxs_owned_def by metis
  next
    case False
    with ev have "ev \<noteq> MG_EV_ACCEPT" "ev \<noteq> MG_EV_CLOSE" by (auto simp: event_enabled_def)
    from event_certs [OF winv ctx(1) this False run'] have "certs_kept (sy_world s) (sy_world t)" by (simp add: t_def)
    then show ?thesis by (rule own_kept [OF owned]) (rule conns)
  qed
qed

lemma own_accept:
  assumes inv: "own_inv s" and new: "sy_conns s (c_id conn) = None"
    and fn: "c_fn conn = c_fn (sy_listener s)" "c_fn_data conn = c_fn_data (sy_listener s)"
    and step: "mg_call_handler E conn MG_EV_ACCEPT (sy_world s) = Some (conn', w')"
  defines "t \<equiv> s\<lparr>sy_world := w', sy_conns := (sy_conns s)(c_id conn \<mapsto> conn')\<rparr>"
  shows "ctxs_owned t \<and> certs_ok (sy_world t)"
proof -
  let ?k = "w_next (sy_world s)"
  note sinv = own_invD(1) [OF inv]
  from step fn sys_invD(2) [OF sinv] have
    ctx: "w_ctx w' = (w_ctx (sy_world s))(?k \<mapsto> remote_context_new E 0 conn)" "w_cert w' = w_cert (sy_world s)"
    and conn': "c_fn_data conn' = FnContext ?k"
    by (auto simp: mg_call_handler_def event_manager_handler_def listener_ok_def promote_context_eq world_defs)
  have "w_ctx (sy_world s) ?k = None"
    using world_invD(5) [OF sys_invD(1) [OF sinv]] by (simp add: fresh_ok_def)
  from certs_ok_new_context [OF own_invD(3) [OF inv] this _ ctx] have "certs_ok w'"
    by (simp add: remote_context_new_def)
  moreover have "\<exists>c a. sy_conns t c = Some a \<and> c_fn_data a = FnContext k" if "w_ctx w' k \<noteq> None" for k
  proof (cases "k = ?k")
    case True
    then show ?thesis using conn' by (intro exI [of _ "c_id conn"] exI [of _ conn']) (simp add: t_def)
  next
    case False
    with that ctx(1) have "w_ctx (sy_world s) k \<noteq> None" by simp
    with own_invD(2) [OF inv] obtain c a where ca: "sy_conns s c = Some a" "c_fn_data a = FnContext k"
      unfolding ctxs_owned_def by blast
    with new have "c \<noteq> c_id conn" by auto
    with ca show ?thesis by (intro exI [of _ c] exI [of _ a]) (simp add: t_def)
  qed
  ultimately show ?thesis by (simp add: ctxs_owned_def t_def)
qed

text \<open>The close of a connection, with the certificate that goes with it.\<close>

lemma close_world:
  assumes inv: "sys_inv s" and c: "sy_conns s c = Some conn"
    and step: "mg_call_handler E (touched conn len tls) MG_EV_CLOSE (sy_world s) = Some (conn', w')"
  obtains k ctx where "c_fn_data conn = FnContext k" "w_ctx (sy_world s) k = Some ctx"
    "w_ctx w' = (w_ctx (sy_world s))(k := None)"
    "\<And>p. w_cert w' p = (if rc_tls_cert ctx = Some p then None else w_cert (sy_world s) p)"
    "w_resp w' = fail_of async_response_mark_failed (conn_resp_refs c (sy_world s)) (w_resp (sy_world s))"
    "w_strm w' = fail_of async_stream_mark_failed (conn_strm_refs c (sy_world s)) (w_strm (sy_world s))"
    "pending_responses w' = um_erase (=) c (pending_responses (sy_world s))"
    "pending_streams w' = um_erase (=) c (pending_streams (sy_world s))"
proof -
  from live_close_safe [OF inv c, of E len tls] step obtain k ctx where
    k: "c_fn_data conn = FnContext k" "w_ctx (sy_world s) k = Some ctx" and
    w': "w' = drop_cert (rc_tls_cert ctx) ((closed_tables c (sy_world s))\<lparr>w_ctx := (w_ctx (sy_world s))(k := None)\<rparr>)"
    by auto
  show ?thesis
    by (rule that [OF k]) (simp_all add: w' drop_cert_def closed_tables_def split: option.split)
qed

lemma own_close:
  assumes inv: "own_inv s" and c: "sy_conns s c = Some conn"
    and step: "mg_call_handler E (touched conn len tls) MG_EV_CLOSE (sy_world s) = Some (conn', w')"
  defines "t \<equiv> s\<lparr>sy_world := w', sy_conns := (sy_conns s)(c := None)\<rparr>"
  shows "ctxs_owned t \<and> certs_ok (sy_world t)"
proof -
  from close_world [OF own_invD(1) [OF inv] c step] obtain k ctx where
    k: "c_fn_data conn = FnContext k" "w_ctx (sy_world s) k = Some ctx" and
    w': "w_ctx w' = (w_ctx (sy_world s))(k := None)"
      "\<And>p. w_cert w' p = (if rc_tls_cert ctx = Some p then None else w_cert (sy_world s) p)" by metis
  have "certs_ok w'" by (rule certs_ok_drop_context [OF own_invD(3) [OF inv] k(2) w'])
  moreover have "\<exists>d a. sy_conns t d = Some a \<and> c_fn_data a = FnContext k'" if "w_ctx w' k' \<noteq> None" for k'
  proof -
    from that w'(1) have k': "k' \<noteq> k" "w_ctx (sy_world s) k' \<noteq> None" by (auto split: if_splits)
    with own_invD(2) [OF inv] obtain d a where da: "sy_conns s d = Some a" "c_fn_data a = FnContext k'"
      unfolding ctxs_owned_def by blast
    with c k(1) k'(1) have "d \<noteq> c" by auto
    with da show ?thesis by (intro exI [of _ d] exI [of _ a]) (simp add: t_def)
  qed
  ultimately show ?thesis by (simp add: ctxs_owned_def t_def)
qed

lemma stream_ops_cert:
  "stream_send_op E ref body w = Some w' \<Longrightarrow> w_cert w' = w_cert w"
  "stream_close_op E ref w = Some w' \<Longrightarrow> w_cert w' = w_cert w"
  by (auto simp: stream_send_op_def stream_close_op_def world_defs split_def Let_def split: option.splits)

lemma sys_step_own:
  assumes inv: "own_inv s" and step: "sys_step s t"
  shows "own_inv t"
proof -
  note sinv = own_invD(1) [OF inv]
  have kept: ?thesis if "w_ctx (sy_world t) = w_ctx (sy_world s)" "w_cert (sy_world t) = w_cert (sy_world s)"
      "sy_conns t = sy_conns s"
    using own_kept [OF own_invD(2,3) [OF inv] certs_kept_same [OF that(1,2)]] that(3) sys_step_inv [OF sinv step]
    by (simp add: own_inv_def)
  from step show ?thesis
  proof (cases rule: sys_step.cases)
    case (sys_accept conn E conn' w')
    then show ?thesis
      using own_accept [OF inv sys_accept(3-6)] sys_step_inv [OF sinv step] by (simp add: own_inv_def)
  next
    case (sys_event c conn ev E len tls conn' w')
    then show ?thesis
      using own_event [OF inv sys_event(2-4)] sys_step_inv [OF sinv step] by (simp add: own_inv_def)
  next
    case (sys_close c conn E len tls conn' w')
    then show ?thesis
      using own_close [OF inv sys_close(2,3)] sys_step_inv [OF sinv step] by (simp add: own_inv_def)
  next
    case (sys_listener ev E conn' w')
    with listener_event_safe [OF sinv sys_listener(2), of E] show ?thesis
      by (intro kept) (auto simp: closed_tables_def split: if_splits)
  next
    case (sys_respond E ref op w' res)
    then show ?thesis using response_op_frame [OF sys_respond(2)] by (intro kept) simp_all
  next
    case (sys_stream_send E ref body w')
    then show ?thesis
      using stream_send_op_inv [OF sys_invD(1) [OF sinv] sys_stream_send(2)] stream_ops_cert(1) [OF sys_stream_send(2)]
      by (intro kept) simp_all
  next
    case (sys_stream_close E ref w')
    then show ?thesis
      using stream_close_op_inv [OF sys_invD(1) [OF sinv] sys_stream_close(2)] stream_ops_cert(2) [OF sys_stream_close(2)]
      by (intro kept) simp_all
  qed (use kept in simp_all)
qed

lemma sys_init_own:
  assumes "sys_init s"
  shows "own_inv s"
proof -
  from assms have "w_ctx (sy_world s) = Map.empty" "w_cert (sy_world s) = Map.empty"
    by (auto simp: sys_init_iff world_new_def)
  with sys_init_inv [OF assms] show ?thesis by (simp add: own_inv_def ctxs_owned_def certs_ok_def owns_def)
qed

interpretation own: transition_system sys_init sys_step own_inv
  by unfold_locales (auto intro: sys_init_own sys_step_own)

subsection \<open>Closing every connection\<close>

text \<open>
  The effect of \<open>mg_mgr_free\<close>, which \<open>server::stop\<close> calls, on the endpoint: an event
  \<open>MG_EV_CLOSE\<close> for every connection, in an order mongoose chooses.
\<close>

fun close_all :: "'p mg_env \<Rightarrow> ulong list \<Rightarrow> 'p sys \<Rightarrow> 'p sys option" where
  "close_all E [] s = Some s"
| "close_all E (c # cs) s =
     (case sy_conns s c of
        None \<Rightarrow> close_all E cs s
      | Some conn \<Rightarrow>
          (case mg_call_handler E conn MG_EV_CLOSE (sy_world s) of
             None \<Rightarrow> None
           | Some (conn', w') \<Rightarrow> close_all E cs (s\<lparr>sy_world := w', sy_conns := (sy_conns s)(c := None)\<rparr>)))"

definition resp_failed :: "'p world \<Rightarrow> nat \<Rightarrow> bool" where
  "resp_failed w ref \<longleftrightarrow> (\<exists>r. w_resp w ref = Some r \<and> ar_state r = R_failed)"

definition strm_failed :: "'p world \<Rightarrow> nat \<Rightarrow> bool" where
  "strm_failed w ref \<longleftrightarrow> (\<exists>x. w_strm w ref = Some x \<and> as_state x = S_failed)"

text \<open>Everything pending under one of \<open>cs\<close> has failed, the rest is still pending.\<close>

definition purged :: "ulong set \<Rightarrow> 'p world \<Rightarrow> 'p world \<Rightarrow> bool" where
  "purged cs w w' \<longleftrightarrow>
     (\<forall>ref. resp_failed w ref \<longrightarrow> resp_failed w' ref) \<and> (\<forall>ref. strm_failed w ref \<longrightarrow> strm_failed w' ref) \<and>
     (\<forall>c i ref. pend_find (pending_responses w) c i = Some ref \<longrightarrow>
        (if c \<in> cs then resp_failed w' ref else pend_find (pending_responses w') c i = Some ref)) \<and>
     (\<forall>c i ref. pend_find (pending_streams w) c i = Some (Some ref) \<longrightarrow>
        (if c \<in> cs then strm_failed w' ref else pend_find (pending_streams w') c i = Some (Some ref)))"

lemma purged_none: "purged {} w w"
  by (simp add: purged_def)

lemma purged_trans: "purged {c} u v \<Longrightarrow> purged cs v w \<Longrightarrow> purged (insert c cs) u w"
  unfolding purged_def by (simp split: if_splits) metis

lemma purged_absent:
  assumes "purged cs w w'" "um_find (=) (pending_responses w) c = None" "um_find (=) (pending_streams w) c = None"
  shows "purged (insert c cs) w w'"
proof -
  have "pend_find (pending_responses w) c i = None" "pend_find (pending_streams w) c i = None" for i
    using assms(2,3) by (simp_all add: pend_find_def)
  with assms(1) show ?thesis unfolding purged_def by auto
qed

lemma close_step_purges:
  assumes inv: "sys_inv s" and c: "sy_conns s c = Some conn"
    and step: "mg_call_handler E (touched conn len tls) MG_EV_CLOSE (sy_world s) = Some (conn', w')"
  shows "purged {c} (sy_world s) w'"
proof -
  note winv = sys_invD(1) [OF inv]
  from close_world [OF inv c step] obtain k :: nat where
    w': "w_resp w' = fail_of async_response_mark_failed (conn_resp_refs c (sy_world s)) (w_resp (sy_world s))"
      "w_strm w' = fail_of async_stream_mark_failed (conn_strm_refs c (sy_world s)) (w_strm (sy_world s))"
      "pending_responses w' = um_erase (=) c (pending_responses (sy_world s))"
      "pending_streams w' = um_erase (=) c (pending_streams (sy_world s))" by metis
  have "resp_failed w' ref" if "resp_failed (sy_world s) ref" for ref
    using that by (auto simp: resp_failed_def w' fail_of_def async_response_mark_failed_def)
  moreover have "strm_failed w' ref" if "strm_failed (sy_world s) ref" for ref
    using that by (auto simp: strm_failed_def w' fail_of_def async_stream_mark_failed_def)
  moreover have "resp_failed w' ref" if "pend_find (pending_responses (sy_world s)) c i = Some ref" for i ref
    unfolding resp_failed_def w' by (rule conn_resp_refs_failed [OF winv that])
  moreover have "strm_failed w' ref" if "pend_find (pending_streams (sy_world s)) c i = Some (Some ref)" for i ref
    unfolding strm_failed_def w' by (rule conn_strm_refs_failed [OF winv that])
  ultimately show ?thesis
    using world_invD(1,2) [OF winv] by (simp add: purged_def w' pend_find_erase_conn)
qed

lemma touched_same: "touched conn (c_send_len conn) (c_tls conn) = conn"
  by (simp add: touched_def)

lemma close_all_purges:
  assumes "own_inv s"
  shows "\<exists>u. close_all E cs s = Some u \<and> own_inv u \<and>
    (\<forall>c. sy_conns u c = (if c \<in> set cs then None else sy_conns s c)) \<and> purged (set cs) (sy_world s) (sy_world u)"
  using assms
proof (induction cs arbitrary: s)
  case Nil
  then show ?case by (simp add: purged_none)
next
  case (Cons c cs)
  note sinv = own_invD(1) [OF Cons.prems]
  show ?case
  proof (cases "sy_conns s c")
    case None
    with sys_invD(3) [OF sinv] have "um_find (=) (pending_responses (sy_world s)) c = None"
      "um_find (=) (pending_streams (sy_world s)) c = None" by (simp_all add: keys_live_def)
    with Cons.IH [OF Cons.prems] None show ?thesis by (auto intro: purged_absent)
  next
    case (Some conn)
    from live_close_safe [OF sinv Some, of E "c_send_len conn" "c_tls conn"] obtain conn' w' where
      run: "mg_call_handler E conn MG_EV_CLOSE (sy_world s) = Some (conn', w')" by (auto simp: touched_same)
    let ?s = "s\<lparr>sy_world := w', sy_conns := (sy_conns s)(c := None)\<rparr>"
    have run': "mg_call_handler E (touched conn (c_send_len conn) (c_tls conn)) MG_EV_CLOSE (sy_world s) = Some (conn', w')"
      using run by (simp only: touched_same)
    have "own_inv ?s" by (rule sys_step_own [OF Cons.prems sys_step.sys_close [OF Some run']])
    from Cons.IH [OF this] obtain u where u: "close_all E cs ?s = Some u" "own_inv u"
      "\<forall>d. sy_conns u d = (if d \<in> set cs then None else sy_conns ?s d)" "purged (set cs) w' (sy_world u)" by auto
    from purged_trans [OF close_step_purges [OF sinv Some run'] u(4)] u(1-3) Some run show ?thesis by auto
  qed
qed

subsection \<open>Properties\<close>

text \<open>
  C4. In every reachable state each live connection leads to a context of the endpoint, each
  context belongs to exactly one connection and each certificate to exactly one context, so
  that no cast of \<open>fn_data\<close> is wrong, nothing is freed twice and nothing leaks.
\<close>
theorem owners_unique:
  assumes "sys_init s" and "sys_step\<^sup>*\<^sup>* s t"
  shows "(\<forall>c conn. sy_conns t c = Some conn \<longrightarrow> c_fn conn = EventManagerContextHandler \<and>
      (\<exists>k ctx. c_fn_data conn = FnContext k \<and> w_ctx (sy_world t) k = Some ctx \<and> rc_endpoint ctx = 0)) \<and>
    (\<forall>k. w_ctx (sy_world t) k \<noteq> None \<longrightarrow> (\<exists>!c. \<exists>conn. sy_conns t c = Some conn \<and> c_fn_data conn = FnContext k)) \<and>
    (\<forall>p. w_cert (sy_world t) p \<noteq> None \<longrightarrow> (\<exists>!k. owns (sy_world t) k p)) \<and>
    (\<forall>k p. owns (sy_world t) k p \<longrightarrow> w_cert (sy_world t) p \<noteq> None)"
proof -
  note inv = own.reach_inv [OF assms]
  note sinv = own_invD(1) [OF inv] and certs = own_invD(3) [OF inv, unfolded certs_ok_def]
  have "\<exists>!c. \<exists>conn. sy_conns t c = Some conn \<and> c_fn_data conn = FnContext k" if "w_ctx (sy_world t) k \<noteq> None" for k
    using own_invD(2) [OF inv] that sys_invD(5) [OF sinv] unfolding ctxs_owned_def by metis
  moreover have "\<exists>!k. owns (sy_world t) k p" if "w_cert (sy_world t) p \<noteq> None" for p
    using certs that by blast
  ultimately show ?thesis
    using sys_invD(4) [OF sinv] certs unfolding conn_ok_def by blast
qed

theorem owners_unique_witness:
  "\<exists>!c. \<exists>conn. sy_conns demo_sys1 c = Some conn \<and> c_fn_data conn = FnContext 0"
proof -
  have "w_ctx (sy_world demo_sys1) 0 \<noteq> None" by (simp add: demo_defs)
  with owners_unique [OF demo_init demo_reach] show ?thesis by blast
qed


text \<open>A connection whose peer has shown a certificate.\<close>

definition demo_tls :: tls_peer where
  "demo_tls = TlsOpenSSL (Some (Some \<lparr>x_subject = ''CN=a'', x_issuer = ''CN=b'', x_not_before = None,
     x_not_after = None, x_serial_hex = ''01'', x_sha256 = [1, 2]\<rparr>)) True"

lemma demo_handshake:
  obtains w ctx p where
    "sys_step\<^sup>*\<^sup>* demo_sys0 (demo_sys1\<lparr>sy_world := w, sy_conns := [2 \<mapsto> touched demo_conn 0 demo_tls]\<rparr>)"
    "context_of (touched demo_conn 0 demo_tls) w = Some (0, ctx)" "rc_tls_cert ctx = Some p"
proof -
  obtain info where info: "tls_setup demo_env demo_tls = Some info"
    by (simp add: tls_setup_def demo_tls_def setup_openssl_def Let_def)
  let ?ctx = "(remote_context_new demo_env 0 (demo_raw 2))\<lparr>rc_tls_cert := Some 1\<rparr>"
  let ?w = "demo_world1\<lparr>w_next := 2, w_ctx := [0 \<mapsto> ?ctx], w_cert := [1 \<mapsto> info]\<rparr>"
  let ?conn = "touched demo_conn 0 demo_tls"
  have "mg_call_handler demo_env ?conn MG_EV_TLS_HS (sy_world demo_sys1) = Some (?conn, ?w)"
    using info
    by (simp add: mg_call_handler_def event_manager_context_handler_def context_of_def remote_context_handle_def
        setup_context_def with_conn_def touched_def set_ctx_def drop_cert_def demo_defs)
  from sys_event [OF _ _ this, of 2] have "sys_step demo_sys1
      (demo_sys1\<lparr>sy_world := ?w, sy_conns := (sy_conns demo_sys1)(2 \<mapsto> ?conn)\<rparr>)"
    by (simp add: demo_sys1_def event_enabled_def)
  then have "sys_step\<^sup>*\<^sup>* demo_sys0 (demo_sys1\<lparr>sy_world := ?w, sy_conns := [2 \<mapsto> ?conn]\<rparr>)"
    using demo_reach by (simp add: demo_sys1_def)
  moreover have "context_of ?conn ?w = Some (0, ?ctx)" by (simp add: context_of_def demo_conn_def touched_def)
  ultimately show ?thesis by (rule that) simp
qed


text \<open>
  C6. Freeing the manager, in whatever order it closes the connections, returns and leaves no
  context, no certificate and no pending entry; every response and stream that was owed is
  marked failed.
\<close>
theorem shutdown_leaves_nothing:
  assumes "sys_init s" and "sys_step\<^sup>*\<^sup>* s t" and "dom (sy_conns t) \<subseteq> set cs"
  shows "\<exists>u. close_all E cs t = Some u \<and> sy_conns u = Map.empty \<and>
    w_ctx (sy_world u) = Map.empty \<and> w_cert (sy_world u) = Map.empty \<and>
    (\<forall>c i. pend_find (pending_responses (sy_world u)) c i = None \<and> pend_find (pending_streams (sy_world u)) c i = None) \<and>
    (\<forall>c i ref. pend_find (pending_responses (sy_world t)) c i = Some ref \<longrightarrow> resp_failed (sy_world u) ref) \<and>
    (\<forall>c i ref. pend_find (pending_streams (sy_world t)) c i = Some (Some ref) \<longrightarrow> strm_failed (sy_world u) ref)"
proof -
  note inv = own.reach_inv [OF assms(1,2)]
  from close_all_purges [OF inv, of E cs] obtain u where
    u: "close_all E cs t = Some u" "own_inv u" "\<forall>c. sy_conns u c = (if c \<in> set cs then None else sy_conns t c)"
      "purged (set cs) (sy_world t) (sy_world u)" by blast
  from u(3) assms(3) have conns: "sy_conns u = Map.empty" by (auto simp: fun_eq_iff dom_def subset_iff)
  with own_invD(2) [OF u(2)] have ctx: "w_ctx (sy_world u) = Map.empty" by (auto simp: ctxs_owned_def fun_eq_iff)
  with own_invD(3) [OF u(2)] have cert: "w_cert (sy_world u) = Map.empty"
    by (auto simp: certs_ok_def owns_def fun_eq_iff)
  from sys_invD(3) [OF own_invD(1) [OF u(2)]] conns have tables:
    "pend_find (pending_responses (sy_world u)) c i = None" "pend_find (pending_streams (sy_world u)) c i = None" for c i
    by (simp_all add: keys_live_def pend_find_def)
  have resp: "resp_failed (sy_world u) ref" if "pend_find (pending_responses (sy_world t)) c i = Some ref" for c i ref
    using u(4) tables(1) that unfolding purged_def by (metis option.distinct(1))
  have strm: "strm_failed (sy_world u) ref" if "pend_find (pending_streams (sy_world t)) c i = Some (Some ref)" for c i ref
    using u(4) tables(2) that unfolding purged_def by (metis option.distinct(1))
  show ?thesis using u(1) conns ctx cert tables resp strm by blast
qed

theorem shutdown_leaves_nothing_witness:
  "\<exists>u. close_all demo_env [2] demo_sys1 = Some u \<and> w_ctx (sy_world u) = Map.empty \<and> sy_conns u = Map.empty"
proof -
  have "dom (sy_conns demo_sys1) \<subseteq> set [2]" by (simp add: demo_sys1_def)
  from shutdown_leaves_nothing [OF demo_init demo_reach this, of demo_env] show ?thesis by blast
qed

end
