(* ===== verification/Request_Copies.thy ===== *)
theory Request_Copies
  imports Component_Properties
begin

text \<open>
  The life of the copies of requests a worker holds: \<open>request::to_async\<close> with the block
  \<open>mg_strdup\<close> allocates, and the destructor of \<open>async_request\<close> that gives it back.
\<close>

subsection \<open>Copying and destroying\<close>

text \<open>The constructor without captures, address and certificate.\<close>

definition async_request_of_msg :: "mg_str \<Rightarrow> mg_http_message \<Rightarrow> async_request" where
  "async_request_of_msg dup msg = async_request_new dup msg [] '''' None"

definition request_copy ::
  "strdup \<Rightarrow> (u64 \<Rightarrow> char) \<Rightarrow> request \<Rightarrow> heap \<Rightarrow> async_request \<times> heap" where
  "request_copy dup mem r h =
     (let (message, h') = dup h (str_of mem (hm_message (rq_msg r)))
      in (request_to_async message r, h'))"

definition async_request_destroy :: "async_request \<Rightarrow> heap \<Rightarrow> heap option" where
  "async_request_destroy r h = heap_free (ms_buf (hm_message (aq_msg r))) h"

text \<open>What workers do with their copies: take one of a request, drop the one at an index.\<close>

datatype copy_op =
    CopyOf "u64 \<Rightarrow> char" request
  | DropCopy nat

fun copy_do :: "strdup \<Rightarrow> copy_op \<Rightarrow> async_request list \<times> heap \<Rightarrow> (async_request list \<times> heap) option" where
  "copy_do dup (CopyOf mem r) (cs, h) = (let (a, h') = request_copy dup mem r h in Some (cs @ [a], h'))"
| "copy_do dup (DropCopy i) (cs, h) =
     (if i < length cs then
        (case async_request_destroy (cs ! i) h of
           None \<Rightarrow> None
         | Some h' \<Rightarrow> Some (take i cs @ drop (Suc i) cs, h'))
      else Some (cs, h))"

fun copies_do :: "strdup \<Rightarrow> copy_op list \<Rightarrow> async_request list \<times> heap \<Rightarrow> (async_request list \<times> heap) option" where
  "copies_do dup [] s = Some s"
| "copies_do dup (op # ops) s = (case copy_do dup op s of None \<Rightarrow> None | Some s' \<Rightarrow> copies_do dup ops s')"

subsection \<open>Blocks\<close>

text \<open>The blocks the copies own; a copy of an empty message, or one that failed, owns none.\<close>

definition blocks :: "async_request list \<Rightarrow> u64 list" where
  "blocks cs = filter (\<lambda>p. p \<noteq> 0) (map (\<lambda>a. ms_buf (hm_message (aq_msg a))) cs)"

lemma blocks_simps [simp]:
  "blocks [] = []"
  "blocks (cs @ ds) = blocks cs @ blocks ds"
  "blocks (a # cs) = (if ms_buf (hm_message (aq_msg a)) = 0 then blocks cs else ms_buf (hm_message (aq_msg a)) # blocks cs)"
  by (simp_all add: blocks_def)

text \<open>On a heap that was \<open>h0\<close> before there were copies.\<close>

definition copies_ok :: "heap \<Rightarrow> async_request list \<times> heap \<Rightarrow> bool" where
  "copies_ok h0 s \<longleftrightarrow>
     distinct (blocks (fst s)) \<and> h0 0 = None \<and>
     (\<forall>p \<in> set (blocks (fst s)). h0 p = None \<and> snd s p \<noteq> None) \<and>
     (\<forall>p. p \<notin> set (blocks (fst s)) \<longrightarrow> snd s p = h0 p)"

lemma copies_ok_empty: "copies_ok h0 ([], h) \<Longrightarrow> h = h0"
  by (auto simp: copies_ok_def)

lemma message_of_copy [simp]: "hm_message (aq_msg (request_to_async m r)) = m"
  by (simp add: request_to_async_def async_request_new_def Let_def)

lemma copies_ok_copy:
  assumes "copies_ok h0 (cs, h)" "strdup_spec dup" "request_copy dup mem r h = (a, h')"
  shows "copies_ok h0 (cs @ [a], h')"
proof -
  obtain m where m: "dup h (str_of mem (hm_message (rq_msg r))) = (m, h')" "a = request_to_async m r"
    using assms(3) by (auto simp: request_copy_def split: prod.splits)
  from assms(2) m(1) show ?thesis
  proof (cases rule: strdup_cases)
    case null
    with assms(1) m(2) show ?thesis by (auto simp: copies_ok_def mg_null_def)
  next
    case (block p)
    with assms(1) have "p \<notin> set (blocks cs)" "h0 p = None" by (fastforce simp: copies_ok_def)+
    with block assms(1) m(2) show ?thesis by (auto simp: copies_ok_def)
  qed
qed

lemma copies_ok_drop:
  assumes ok: "copies_ok h0 (cs, h)" and i: "i < length cs"
  shows "\<exists>h'. async_request_destroy (cs ! i) h = Some h' \<and> copies_ok h0 (take i cs @ drop (Suc i) cs, h')"
proof -
  let ?p = "ms_buf (hm_message (aq_msg (cs ! i)))" and ?rest = "take i cs @ drop (Suc i) cs"
  have cs: "cs = take i cs @ cs ! i # drop (Suc i) cs" using i by (rule id_take_nth_drop)
  have split: "blocks cs = blocks (take i cs) @ blocks [cs ! i] @ blocks (drop (Suc i) cs)"
    using arg_cong [OF cs, of blocks] by (simp split: if_splits)
  show ?thesis
  proof (cases "?p = 0")
    case True
    with split have "blocks ?rest = blocks cs" by simp
    with ok True show ?thesis by (simp add: async_request_destroy_def heap_free_def copies_ok_def)
  next
    case False
    with split have "blocks cs = blocks (take i cs) @ ?p # blocks (drop (Suc i) cs)" by simp
    with ok have p: "?p \<notin> set (blocks ?rest)" "distinct (blocks ?rest)" "set (blocks cs) = insert ?p (set (blocks ?rest))"
      by (auto simp: copies_ok_def)
    with ok have "h ?p \<noteq> None" "h0 ?p = None" by (auto simp: copies_ok_def)
    with False have "async_request_destroy (cs ! i) h = Some (h(?p := None))"
      by (simp add: async_request_destroy_def heap_free_def)
    moreover have "copies_ok h0 (?rest, h(?p := None))"
      using ok p \<open>h0 ?p = None\<close> by (auto simp: copies_ok_def)
    ultimately show ?thesis by blast
  qed
qed

subsection \<open>What the copies read\<close>

text \<open>The bytes of a view into the block at \<open>p\<close>.\<close>

definition heap_read :: "heap \<Rightarrow> u64 \<Rightarrow> mg_str \<Rightarrow> string" where
  "heap_read h p s = take (unat (ms_len s)) (drop (unat (ms_buf s - p)) (the (h p)))"

lemma heap_read_rebase:
  assumes "h p = Some (str_of mem message)" "inside message s" "ms_buf s \<noteq> 0"
  shows "heap_read h p (rebase (p - ms_buf message) s) = str_of mem s"
proof -
  define k where "k = unat (ms_buf s - ms_buf message)"
  from assms(2,3) have k: "k + unat (ms_len s) \<le> unat (ms_len message)" by (auto simp: inside_def k_def mg_null_def)
  have buf: "ms_buf s = ms_buf message + of_nat k" by (simp add: k_def)
  have "heap_read h p (rebase (p - ms_buf message) s) = take (unat (ms_len s)) (drop k (str_of mem message))"
    using assms(1,3) by (simp add: heap_read_def rebase_def k_def)
  also have "\<dots> = str_of mem s"
    using k by (intro nth_equalityI) (auto simp: str_of_def buf algebra_simps)
  finally show ?thesis .
qed

text \<open>A copy of one of the given requests, whose block, if it has one, holds that message.\<close>

definition copy_of :: "((u64 \<Rightarrow> char) \<times> request) set \<Rightarrow> heap \<Rightarrow> async_request \<Rightarrow> bool" where
  "copy_of S h a \<longleftrightarrow>
     (\<exists>mem r. (mem, r) \<in> S \<and> a = request_to_async (hm_message (aq_msg a)) r \<and>
        (ms_buf (hm_message (aq_msg a)) = 0 \<or>
         h (ms_buf (hm_message (aq_msg a))) = Some (str_of mem (hm_message (rq_msg r)))))"

lemma copy_of_kept:
  assumes "copy_of S h a" "S \<subseteq> T"
    and kept: "ms_buf (hm_message (aq_msg a)) \<noteq> 0 \<Longrightarrow> h' (ms_buf (hm_message (aq_msg a))) = h (ms_buf (hm_message (aq_msg a)))"
  shows "copy_of T h' a"
proof -
  from assms(1) obtain mem r where "(mem, r) \<in> S" "a = request_to_async (hm_message (aq_msg a)) r"
    "ms_buf (hm_message (aq_msg a)) = 0 \<or> h (ms_buf (hm_message (aq_msg a))) = Some (str_of mem (hm_message (rq_msg r)))"
    unfolding copy_of_def by blast
  with assms(2) kept show ?thesis unfolding copy_of_def by (metis subsetD)
qed

lemma block_in: "a \<in> set cs \<Longrightarrow> ms_buf (hm_message (aq_msg a)) \<noteq> 0 \<Longrightarrow> ms_buf (hm_message (aq_msg a)) \<in> set (blocks cs)"
  by (auto simp: blocks_def)

definition copies_inv :: "((u64 \<Rightarrow> char) \<times> request) set \<Rightarrow> heap \<Rightarrow> async_request list \<times> heap \<Rightarrow> bool" where
  "copies_inv S h0 s \<longleftrightarrow> copies_ok h0 s \<and> (\<forall>a \<in> set (fst s). copy_of S (snd s) a)"

fun sources :: "copy_op \<Rightarrow> ((u64 \<Rightarrow> char) \<times> request) set" where
  "sources (CopyOf mem r) = {(mem, r)}"
| "sources (DropCopy i) = {}"

lemma sources_iff: "(mem, r) \<in> sources op \<longleftrightarrow> op = CopyOf mem r"
  by (cases op) auto

lemma copies_inv_copy:
  assumes inv: "copies_inv S h0 (cs, h)" and dup: "strdup_spec dup" and c: "request_copy dup mem r h = (a, h')"
  shows "copies_inv (S \<union> {(mem, r)}) h0 (cs @ [a], h')"
proof -
  obtain m where m: "dup h (str_of mem (hm_message (rq_msg r))) = (m, h')" "a = request_to_async m r"
    using c by (auto simp: request_copy_def split: prod.splits)
  have new: "copy_of (S \<union> {(mem, r)}) h' a" and old: "h p \<noteq> None \<Longrightarrow> h' p = h p" for p
    using dup m(1) by (cases rule: strdup_cases; use m(2) in \<open>auto simp: copy_of_def mg_null_def\<close>)+
  have "copy_of (S \<union> {(mem, r)}) h' b" if "b \<in> set cs" for b
  proof (rule copy_of_kept)
    show "copy_of S h b" using inv that by (simp add: copies_inv_def)
    show "h' (ms_buf (hm_message (aq_msg b))) = h (ms_buf (hm_message (aq_msg b)))"
      if "ms_buf (hm_message (aq_msg b)) \<noteq> 0"
      using inv block_in [OF \<open>b \<in> set cs\<close> that] old by (auto simp: copies_inv_def copies_ok_def)
  qed auto
  with new copies_ok_copy [OF _ dup c] inv show ?thesis by (simp add: copies_inv_def)
qed

lemma copies_inv_drop:
  assumes inv: "copies_inv S h0 (cs, h)" and i: "i < length cs"
  shows "\<exists>h'. async_request_destroy (cs ! i) h = Some h' \<and> copies_inv S h0 (take i cs @ drop (Suc i) cs, h')"
proof -
  let ?rest = "take i cs @ drop (Suc i) cs"
  from copies_ok_drop [of h0 cs h i] i inv obtain h' where
    h': "async_request_destroy (cs ! i) h = Some h'" "copies_ok h0 (?rest, h')" by (auto simp: copies_inv_def)
  have "copy_of S h' b" if b: "b \<in> set ?rest" for b
  proof (rule copy_of_kept)
    show "copy_of S h b" using inv b by (auto simp: copies_inv_def dest: in_set_takeD in_set_dropD)
    show "h' (ms_buf (hm_message (aq_msg b))) = h (ms_buf (hm_message (aq_msg b)))"
      if "ms_buf (hm_message (aq_msg b)) \<noteq> 0"
    proof -
      have "h' (ms_buf (hm_message (aq_msg b))) \<noteq> None" using h'(2) block_in [OF b that] by (auto simp: copies_ok_def)
      with h'(1) show ?thesis by (auto simp: async_request_destroy_def heap_free_def split: if_splits)
    qed
  qed simp
  with h' show ?thesis by (simp add: copies_inv_def)
qed

lemma copies_inv_do:
  assumes "copies_inv S h0 s" "strdup_spec dup"
  shows "\<exists>s'. copy_do dup op s = Some s' \<and> copies_inv (S \<union> sources op) h0 s'"
proof (cases op)
  case (CopyOf mem r)
  with copies_inv_copy [of S h0 "fst s" "snd s" dup mem r] assms show ?thesis by (cases s) (auto split: prod.split)
next
  case (DropCopy i)
  with copies_inv_drop [of S h0 "fst s" "snd s" i] assms show ?thesis by (cases s) auto
qed

lemma copies_inv_run:
  assumes "copies_inv S h0 s" "strdup_spec dup"
  shows "\<exists>s'. copies_do dup ops s = Some s' \<and> copies_inv (S \<union> (\<Union>op \<in> set ops. sources op)) h0 s'"
  using assms(1)
proof (induction ops arbitrary: s S)
  case (Cons op ops)
  from copies_inv_do [OF Cons.prems assms(2), of op] obtain s' where
    s': "copy_do dup op s = Some s'" "copies_inv (S \<union> sources op) h0 s'" by blast
  from Cons.IH [OF s'(2)] s'(1) show ?case by (simp add: Un_assoc)
qed simp

subsection \<open>Properties\<close>

text \<open>
  C36. Whatever copies of requests are taken and dropped, in whatever order and with whichever
  duplications failing, no block is freed twice and none that is not a copy's; a copy that is
  held and has its block reads every part of the message as the request did, whatever became of
  the request's own buffer; and when all copies are dropped the heap is what it was.
\<close>
theorem copies_read_and_freed:
  assumes "strdup_spec dup" and "h 0 = None"
  shows "\<exists>cs h'. copies_do dup ops ([], h) = Some (cs, h') \<and> (cs = [] \<longrightarrow> h' = h) \<and> distinct (blocks cs) \<and>
    (\<forall>a \<in> set cs. \<exists>mem r. CopyOf mem r \<in> set ops \<and> a = request_to_async (hm_message (aq_msg a)) r \<and>
      (let p = ms_buf (hm_message (aq_msg a)); message = hm_message (rq_msg r) in
       p = 0 \<or> (\<forall>s. inside message s \<and> ms_buf s \<noteq> 0 \<longrightarrow>
                     heap_read h' p (rebase (p - ms_buf message) s) = str_of mem s)))"
proof -
  have "copies_inv {} h ([], h)" using assms(2) by (simp add: copies_inv_def copies_ok_def)
  from copies_inv_run [OF this assms(1), of ops] obtain cs h' where
    run: "copies_do dup ops ([], h) = Some (cs, h')" and inv: "copies_inv (\<Union>op \<in> set ops. sources op) h (cs, h')" by auto
  from inv have ok: "copies_ok h (cs, h')" by (simp add: copies_inv_def)
  have source: "CopyOf mem r \<in> set ops" if "(mem, r) \<in> (\<Union>op \<in> set ops. sources op)" for mem r
    using that by (auto simp: sources_iff)
  have held: "\<exists>mem r. CopyOf mem r \<in> set ops \<and> a = request_to_async (hm_message (aq_msg a)) r \<and>
      (let p = ms_buf (hm_message (aq_msg a)); message = hm_message (rq_msg r) in
       p = 0 \<or> (\<forall>s. inside message s \<and> ms_buf s \<noteq> 0 \<longrightarrow>
                     heap_read h' p (rebase (p - ms_buf message) s) = str_of mem s))" if "a \<in> set cs" for a
  proof -
    from inv that have "copy_of (\<Union>op \<in> set ops. sources op) h' a" by (simp add: copies_inv_def)
    then obtain mem r where "(mem, r) \<in> (\<Union>op \<in> set ops. sources op)" "a = request_to_async (hm_message (aq_msg a)) r"
      "ms_buf (hm_message (aq_msg a)) = 0 \<or> h' (ms_buf (hm_message (aq_msg a))) = Some (str_of mem (hm_message (rq_msg r)))"
      unfolding copy_of_def by blast
    with source [of mem r] heap_read_rebase [of h' "ms_buf (hm_message (aq_msg a))" mem "hm_message (rq_msg r)"]
    show ?thesis unfolding Let_def by blast
  qed
  have "cs = [] \<longrightarrow> h' = h" using ok copies_ok_empty [of h h'] by blast
  moreover have "distinct (blocks cs)" using ok by (simp add: copies_ok_def)
  ultimately show ?thesis using run held by blast
qed

theorem copies_read_and_freed_witness:
  "\<exists>cs h'. copies_do demo_dup [CopyOf (\<lambda>a. char_of (unat a)) demo_request, CopyOf (\<lambda>a. char_of (unat a)) demo_request,
      DropCopy 0, DropCopy 0] ([], Map.empty) = Some (cs, h') \<and> distinct (blocks cs) \<and> h' = Map.empty"
proof -
  let ?c = "CopyOf (\<lambda>a. char_of (unat a)) demo_request"
  from copies_read_and_freed [OF demo_dup_spec, of Map.empty "[?c, ?c, DropCopy 0, DropCopy 0]"]
  obtain cs h' where run: "copies_do demo_dup [?c, ?c, DropCopy 0, DropCopy 0] ([], Map.empty) = Some (cs, h')"
    "cs = [] \<longrightarrow> h' = Map.empty" "distinct (blocks cs)" by auto
  have "cs = []" using run(1) by (auto simp: split_def Let_def split: option.splits)
  with run show ?thesis by blast
qed

text \<open>
  When the duplication fails the copy's views are as far from null as they were from the start
  of the message: the first one is null with a length, and the others point below the message.
\<close>

lemma failed_copy_points_nowhere:
  assumes "dup h (str_of mem (hm_message (rq_msg r))) = (mg_null, h)"
    and "ms_buf (hm_uri (rq_msg r)) = ms_buf (hm_message (rq_msg r)) + k" "ms_buf (hm_uri (rq_msg r)) \<noteq> 0"
  shows "hm_uri (aq_msg (fst (request_copy dup mem r h))) = \<lparr>ms_buf = k, ms_len = ms_len (hm_uri (rq_msg r))\<rparr>"
  using assms by (simp add: request_copy_def request_to_async_def async_request_new_def rebase_def mg_null_def Let_def)

end
