(* ===== verification/File_Stream.thy ===== *)
theory File_Stream
  imports Channel
begin

text \<open>
  The two file routes of the example program (\<open>examples/simple/src/main.cpp\<close>): a file
  read in chunks of 32 bytes, by the producer of a synchronous stream and by the loop of a
  worker thread.
\<close>

subsection \<open>Reading\<close>

text \<open>
  An open \<open>std::ifstream\<close>: what is left to read and its \<open>eofbit\<close>. A read sets the
  bit when it could not get all it asked for, and not when it got exactly the rest.
\<close>

type_synonym ifstream = "string \<times> bool"

definition file_read :: "nat \<Rightarrow> ifstream \<Rightarrow> string \<times> ifstream" where
  "file_read n f = (take n (fst f), (drop n (fst f), length (fst f) < n))"

text \<open>The lambda of the route \<open>/file\<close>.\<close>

definition file_producer :: "ifstream \<Rightarrow> string option \<times> ifstream" where
  "file_producer f =
     (if snd f then (None, f)
      else let (chunk, f') = file_read 32 f in (Some chunk, f'))"

text \<open>What the loop of the route \<open>/async/file\<close> sends before it closes the stream.\<close>

function file_loop :: "ifstream \<Rightarrow> string list" where
  "file_loop f =
     (if snd f then []
      else let (chunk, f') = file_read 32 f in chunk # file_loop f')"
  by pat_completeness auto
termination
  by (relation "measure (\<lambda>f. if snd f then 0 else Suc (length (fst f)))") (auto simp: file_read_def)

declare file_loop.simps [simp del]

lemma file_loop_eof: "file_loop (content, True) = []"
  by (simp add: file_loop.simps)

lemma file_loop_more:
  "file_loop (content, False) = take 32 content # file_loop (drop 32 content, length content < 32)"
  by (simp add: file_loop.simps [of "(content, False)"] file_read_def)

lemma file_loop_concat: "concat (file_loop (content, False)) = content"
proof (induction "length content" arbitrary: content rule: less_induct)
  case less
  show ?case
  proof (cases "length content < 32")
    case True
    then show ?thesis by (simp add: file_loop_more file_loop_eof)
  next
    case False
    with less.hyps [of "drop 32 content"] show ?thesis by (simp add: file_loop_more)
  qed
qed

text \<open>Only a file whose length is a multiple of 32 makes an empty chunk, and that is the last.\<close>

lemma file_loop_multiple:
  assumes "32 dvd length content"
  shows "file_loop (content, False) = butlast (file_loop (content, False)) @ ['''']"
  using assms
proof (induction "length content" arbitrary: content rule: less_induct)
  case less
  show ?case
  proof (cases "content = ''''")
    case True
    then show ?thesis by (simp add: file_loop_more file_loop_eof)
  next
    case False
    with less.prems have "32 \<le> length content" by (simp add: dvd_imp_le)
    moreover from this less.prems have "32 dvd length (drop 32 content)" by (simp add: dvd_minus_self)
    ultimately have "file_loop (drop 32 content, False) = butlast (file_loop (drop 32 content, False)) @ ['''']"
      using less.hyps [of "drop 32 content"] by simp
    with \<open>32 \<le> length content\<close> show ?thesis
      by (simp add: file_loop_more [of content] not_less) (metis snoc_eq_iff_butlast)
  qed
qed

text \<open>The producer yields what the loop sends.\<close>

lemma produced_file:
  assumes "env_get E = file_producer"
  shows "produced E (Suc (length (file_loop f))) f = Some (file_loop f)"
proof (induction f rule: file_loop.induct)
  case (1 f)
  show ?case
  proof (cases "snd f")
    case True
    then show ?thesis by (simp add: assms file_producer_def file_loop.simps [of f])
  next
    case False
    from 1 [OF False refl] False show ?thesis
      by (simp add: assms file_producer_def file_loop.simps [of f] file_read_def)
  qed
qed

subsection \<open>Properties\<close>

text \<open>
  C28. A file whose length is a multiple of 32 reaches the client complete, but on both routes
  of the example the last read finds nothing and its empty chunk is sent: the client gets the
  terminal chunk twice, the first of them before the stream is closed.
\<close>
theorem example_file_ends_twice:
  assumes "32 dvd length content"
    and "env_get E = file_producer" and "c_send_len conn < env_io_size E"
    and "run_init conn rid ref s" and "rn_todo s = file_loop (content, False)"
    and "\<forall>E \<in> Es. env_open E" and "E \<in> Es"
  shows "\<exists>ds n u. concat ds = content \<and>
    snd (pump_run E conn n (set_stream (content, False) ctx)) =
      map (MgHttpWriteChunk (c_id conn)) ds @ [MgHttpWriteChunk (c_id conn) '''', MgHttpWriteChunk (c_id conn) ''''] \<and>
    (run_step Es conn ref)\<^sup>*\<^sup>* s u \<and> finished u \<and>
    net_calls (w_calls (rn_world u)) = net_calls (w_calls (rn_world s)) @
      map (MgHttpWriteChunk (c_id conn)) ds @ [MgHttpWriteChunk (c_id conn) '''', MgHttpWriteChunk (c_id conn) '''']"
proof -
  let ?f = "(content, False)"
  let ?ds = "butlast (file_loop ?f)"
  note split = file_loop_multiple [OF assms(1)]
  have "concat (?ds @ ['''']) = content" using file_loop_concat [of content] by (simp flip: split)
  then have "concat ?ds = content" by simp
  moreover have "snd (pump_run E conn (Suc (length (file_loop ?f))) (set_stream ?f ctx)) =
      map (MgHttpWriteChunk (c_id conn)) (?ds @ ['''']) @ [MgHttpWriteChunk (c_id conn) '''']"
    using pump_run_produced [OF assms(3) produced_file [OF assms(2), of ?f], of "set_stream ?f ctx"]
    by (simp add: set_stream_def flip: split)
  moreover obtain u where "(run_step Es conn ref)\<^sup>*\<^sup>* s u" "finished u"
    "net_calls (w_calls (rn_world u)) = net_calls (w_calls (rn_world s)) @
      map (MgHttpWriteChunk (c_id conn)) (file_loop ?f @ [''''])"
    using run_completes [OF assms(4) rtranclp.rtrancl_refl _ assms(6,7) le_less_trans [OF word_zero_le assms(3)]] assms(4,5)
    by (auto simp: run_init_def)
  moreover from this(3) have "net_calls (w_calls (rn_world u)) = net_calls (w_calls (rn_world s)) @
      map (MgHttpWriteChunk (c_id conn)) ((?ds @ ['''']) @ [''''])"
    by (simp only: flip: split)
  ultimately show ?thesis by (intro exI [of _ ?ds] exI [of _ "Suc (length (file_loop ?f))"] exI [of _ u]) simp
qed

text \<open>A file of 32 bytes, read by a run of the demonstration.\<close>

definition demo_file_env :: "ifstream mg_env" where
  "demo_file_env =
     \<lparr>env_mem = (\<lambda>_. CHR ''x''), env_match = (\<lambda>uri pattern groups. (True, groups)),
      env_get_header = (\<lambda>msg n. None), env_wakeup = (\<lambda>c d. True), env_mgr_alive = True,
      env_io_size = 16384, env_get = file_producer,
      env_inet_ntop = (\<lambda>v6 ip. ''127.0.0.1''), env_ntohs = (\<lambda>p. p), env_timegm = tm_sec\<rparr>"

definition demo_file_strm :: async_stream where
  "demo_file_strm = \<lparr>as_conn = 2, as_id = 0, as_data = '''', as_state = S_flush\<rparr>"

definition demo_file_world :: "ifstream world" where
  "demo_file_world = (world_new '''')\<lparr>
     w_ep := (endpoint_new '''')\<lparr>ep_pending_streams := [(2, [(0, Some 1)])]\<rparr>, w_next := 2,
     w_ctx := [0 \<mapsto> remote_context_new demo_file_env 0 (demo_raw 2)], w_strm := [1 \<mapsto> demo_file_strm]\<rparr>"

definition demo_file_run :: "ifstream run" where
  "demo_file_run =
     \<lparr>rn_world = demo_file_world, rn_producer = P_loop,
      rn_todo = file_loop (replicate 32 (CHR ''x''), False), rn_queue = [],
      rn_open = True\<rparr>"

lemma demo_file_init: "run_init demo_conn 0 1 demo_file_run"
proof -
  have "world_inv demo_file_world"
    by (simp add: world_inv_def demo_file_world_def world_new_def endpoint_new_def pend_ok_def um_ok_def
        pend_find_def fresh_ok_def strm_ok_def demo_file_strm_def)
  then show ?thesis
    by (simp add: run_init_def calm_def stream_at_def demo_file_run_def demo_file_world_def world_new_def
        endpoint_new_def pend_find_def demo_file_strm_def context_of_def demo_conn_def demo_raw_def
        remote_context_new_def)
qed

theorem example_file_ends_twice_witness:
  "\<exists>ds u. concat ds = replicate 32 (CHR ''x'') \<and>
    (run_step {demo_file_env} demo_conn 1)\<^sup>*\<^sup>* demo_file_run u \<and> finished u \<and>
    net_calls (w_calls (rn_world u)) =
      map (MgHttpWriteChunk 2) ds @ [MgHttpWriteChunk 2 '''', MgHttpWriteChunk 2 '''']"
proof -
  have E: "env_get demo_file_env = file_producer" "c_send_len demo_conn < env_io_size demo_file_env"
    "\<forall>E \<in> {demo_file_env}. env_open E" "demo_file_env \<in> {demo_file_env}" "c_id demo_conn = 2"
    by (simp_all add: demo_file_env_def demo_conn_def demo_raw_def env_open_def)
  have s: "rn_todo demo_file_run = file_loop (replicate 32 (CHR ''x''), False)"
    "net_calls (w_calls (rn_world demo_file_run)) = []"
    by (simp_all add: demo_file_run_def demo_file_world_def world_new_def)
  have "32 dvd length (replicate 32 (CHR ''x''))" by simp
  from example_file_ends_twice [OF this E(1,2) demo_file_init s(1) E(3,4)] show ?thesis
    unfolding E(5) s(2) append_Nil by blast
qed

end
