(* ===== verification/Example_Program.thy ===== *)
theory Example_Program
  imports File_Stream
begin

text \<open>
  The example program, \<open>examples/simple/src/main.cpp\<close>: the callbacks of its routes and the
  registrations of \<open>main\<close>. What a callback closes over (a counter, an object, the file it
  opens, what a weak pointer locks to) is an argument, with the value it has when the route
  runs. The detached threads perform their operations on the response later, so their
  callbacks do nothing and each thread is a list of operations of its own; sleeping and
  printing have no counterpart.
\<close>

abbreviation quote :: char where
  "quote \<equiv> CHR 0x27"

subsection \<open>Synchronous routes\<close>

definition simple_handler :: "'p mg_env \<Rightarrow> request \<Rightarrow> 'p Response.response_op list" where
  "simple_handler E req =
     [RSend (status_int SC_im_a_teapot) ''What starts with T, ends with T, but only has T in?'']"

definition example_simple :: "int \<Rightarrow> 'p mg_env \<Rightarrow> request \<Rightarrow> 'p Response.response_op list" where
  "example_simple trick E req =
     [RSend (status_int SC_ok) (''I'' @ [quote] @ ''m a class member callback: '' @ fmt_int trick)]"

definition lambda_callback :: "u64 \<Rightarrow> 'p mg_env \<Rightarrow> request \<Rightarrow> 'p Response.response_op list" where
  "lambda_callback counter E req =
     [RSend (status_int SC_ok)
        (''I'' @ [quote] @ ''m a lambda callback ('' @ dec_nat (unat (counter + 1)) @ '' calls).'')]"

definition who_callback :: "'p mg_env \<Rightarrow> request \<Rightarrow> 'p Response.response_op list" where
  "who_callback E req =
     [RSend (status_int SC_ok) (''You are '' @ request_get_remote_ip req @ ''!'')]"

text \<open>The body is put together from views into the headers, read before and after a change.\<close>

definition headers_callback :: "'p mg_env \<Rightarrow> request \<Rightarrow> 'p Response.response_op list" where
  "headers_callback E req =
     (let h1 = headers_set ''Authorization'' ''Bearer [token]'' headers_new;
          body1 = ''auth is '' @ value_or (headers_get_view ''authorization'' h1) ''<not found>'' @ [LF];
          body2 = body1 @ ''fake is '' @ value_or (headers_get_view ''fake'' h1) ''<not found>'' @ [LF];
          h2 = headers_set ''X-Fake'' ''warning'' h1;
          body3 = body2 @ ''X-Fake is '' @ value_or (headers_get_view ''x-fake'' h2) ''<not found>''
      in [RHeaderSet ''Authorization'' ''Bearer [token]'', RHeaderSet ''X-Fake'' ''warning'',
          RSend (status_int SC_ok) body3])"

text \<open>\<open>file\<close> is the content of the file, \<open>None\<close> when it cannot be opened.\<close>

definition file_callback :: "string option \<Rightarrow> ifstream mg_env \<Rightarrow> request \<Rightarrow> ifstream Response.response_op list" where
  "file_callback file_content E req =
     (case file_content of
        None \<Rightarrow> [RSend (status_int SC_internal_server_error) ''Failed to open file'']
      | Some content \<Rightarrow>
          [RHeaderSet ''Content-Type'' ''text/plain'',
           RStream (status_int SC_ok) ''chunked'' (content, False),
           RSend (status_int SC_bad_request) ''''])"

definition api_callback :: "'p mg_env \<Rightarrow> request \<Rightarrow> 'p Response.response_op list" where
  "api_callback E req =
     (let param = value_or (request_get_param (env_mem E) 0 req) ''''
      in [RSend (status_int SC_ok) (''I'' @ [quote] @ ''m capturing one group for API endpoints: '' @ param)])"

definition cert_text :: "tls_cert_info \<Rightarrow> string" where
  "cert_text info =
     ''--- Client certificate ---'' @ [LF] @
     ''Subject:'' @ get_subject_name info @ [LF] @
     ''Issuer:'' @ get_issuer_name info @ [LF] @
     ''Serial Number:'' @ get_serial_number info @ [LF] @
     ''Not Before:'' @ get_not_before info @ [LF] @
     ''Not After:'' @ get_not_after info @ [LF] @
     ''Fingerprint:'' @ get_fingerprint info"

text \<open>\<open>lock\<close> is what locking a weak pointer yields, \<open>cert_lock\<close> of the world at that time.\<close>

definition cert_callback ::
  "(nat option \<Rightarrow> tls_cert_info option) \<Rightarrow> 'p mg_env \<Rightarrow> request \<Rightarrow> 'p Response.response_op list" where
  "cert_callback lock E req =
     (case lock (request_get_tls_cert_info req) of
        Some info \<Rightarrow> [RSend (status_int SC_ok) (cert_text info)]
      | None \<Rightarrow> [RSend (status_int SC_bad_request) ''No client certificate provided''])"

definition fallback_callback :: "'p mg_env \<Rightarrow> request \<Rightarrow> 'p Response.response_op list" where
  "fallback_callback E req = [RSend (status_int SC_not_found) ''404 Not Found'']"

subsection \<open>Threads of the asynchronous routes\<close>

definition cert_thread ::
  "(nat option \<Rightarrow> tls_cert_info option) \<Rightarrow> async_request \<Rightarrow> async_response_op list" where
  "cert_thread lock async_req =
     (case lock (async_request_get_tls_cert_info async_req) of
        Some info \<Rightarrow> [ASend (status_int SC_ok) (cert_text info)]
      | None \<Rightarrow> [ASend (status_int SC_bad_request) ''No client certificate provided''])"

definition who_thread :: "async_request \<Rightarrow> async_response_op list" where
  "who_thread async_req =
     [ASend (status_int SC_ok) (''You are '' @ async_request_get_remote_ip async_req @ ''!'')]"

text \<open>Up to the loop over the stream, which is \<open>run_step\<close> with \<open>file_loop\<close>.\<close>

definition file_thread :: "string option \<Rightarrow> async_response_op list" where
  "file_thread file_content =
     (case file_content of
        None \<Rightarrow> [ASend (status_int SC_internal_server_error) ''Failed to open file'']
      | Some content \<Rightarrow>
          [AHeaderSet ''Content-Type'' ''text/plain'', AStream (status_int SC_ok) ''chunked''])"

text \<open>
  \<open>std::from_chars\<close> reads an optional minus sign and the digits after it and ignores the
  rest; no digit, or a value that is no \<open>int\<close>, is an error.
\<close>

definition is_digit :: "char \<Rightarrow> bool" where
  "is_digit c \<longleftrightarrow> 48 \<le> (of_char c :: nat) \<and> (of_char c :: nat) < 58"

definition to_int :: "string \<Rightarrow> int option" where
  "to_int str =
     (let neg = (str \<noteq> [] \<and> hd str = CHR ''-'');
          digits = takeWhile is_digit (if neg then tl str else str);
          num = (if neg then - int (dec_val digits) else int (dec_val digits))
      in if digits = [] \<or> num < - (2 ^ 31) \<or> num \<ge> 2 ^ 31 then None else Some num)"

text \<open>The seconds the last thread sleeps, and what it sends afterwards.\<close>

definition counter_sleep :: "(u64 \<Rightarrow> char) \<Rightarrow> async_request \<Rightarrow> int" where
  "counter_sleep mem async_req =
     (case to_int (value_or (async_request_get_param mem 0 async_req) ''5'') of None \<Rightarrow> 5 | Some n \<Rightarrow> n)"

definition counter_thread :: "(u64 \<Rightarrow> char) \<Rightarrow> u64 \<Rightarrow> async_request \<Rightarrow> async_response_op list" where
  "counter_thread mem async_counter async_req =
     [ASend (status_int SC_ok)
        (''I'' @ [quote] @ ''m an async '' @ async_request_method mem async_req @ '' callback ('' @
         dec_nat (unat async_counter) @ '' calls).'')]"

subsection \<open>The registrations of \<open>main\<close>\<close>

record example =
  ex_trick :: int
  ex_counter :: u64
  ex_file :: "string option"
  ex_lock :: "nat option \<Rightarrow> tls_cert_info option"

definition example_routes :: "example \<Rightarrow> ifstream endpoint \<Rightarrow> ifstream endpoint" where
  "example_routes ex http =
     (let http1 = on_request ''/joke'' simple_handler http;
          http2 = on_request ''/class'' (example_simple (ex_trick ex)) http1;
          http3 = on_request ''/lambda'' (lambda_callback (ex_counter ex)) http2;
          http4 = on_request ''/who'' who_callback http3;
          http5 = on_request ''/headers'' headers_callback http4;
          http6 = on_request ''/file'' (file_callback (ex_file ex)) http5;
          http7 = on_request ''/api/#'' api_callback http6;
          http8 = on_request ''/cert'' (cert_callback (ex_lock ex)) http7
      in on_fallback fallback_callback http8)"

definition example_async_routes :: "ifstream endpoint \<Rightarrow> ifstream endpoint" where
  "example_async_routes http =
     (let http1 = on_async_request ''/async/cert'' (\<lambda>E req. []) http;
          http2 = on_async_request ''/async/who'' (\<lambda>E req. []) http1;
          http3 = on_async_request ''/async/file'' (\<lambda>E req. []) http2
      in on_async_request ''/async/?'' (\<lambda>E req. []) http3)"

text \<open>The absolute paths of the page and of the asset directory.\<close>

definition example_assets :: "string \<Rightarrow> string \<Rightarrow> ifstream endpoint \<Rightarrow> ifstream endpoint" where
  "example_assets page assets http =
     on_assets [(''/assets/#'', assets)] (on_asset_default ''/'' page http)"

definition example_endpoint :: "example \<Rightarrow> string \<Rightarrow> string \<Rightarrow> ifstream endpoint" where
  "example_endpoint ex page assets =
     example_assets page assets (example_async_routes (example_routes ex (endpoint_new ''http://127.0.0.1:4200'')))"

subsection \<open>What the routes answer\<close>

text \<open>Reading a printed number back.\<close>

lemma dec_nat_is_digit: "list_all is_digit (dec_nat n)"
  using dec_nat_digits by (auto simp: list_all_iff is_digit_def)

lemma takeWhile_dec_nat: "takeWhile is_digit (dec_nat n) = dec_nat n"
  using dec_nat_is_digit by (simp add: takeWhile_eq_all_conv list_all_iff)

lemma hd_dec_nat: "hd (dec_nat n) \<noteq> CHR ''-''"
proof
  assume "hd (dec_nat n) = CHR ''-''"
  moreover have "is_digit (hd (dec_nat n))" using dec_nat_is_digit [of n] by (cases "dec_nat n") auto
  ultimately show False by (simp add: is_digit_def)
qed

lemma to_int_fmt_int:
  assumes "- (2 ^ 31) \<le> i" "i < 2 ^ 31"
  shows "to_int (fmt_int i) = Some i"
  using assms by (simp add: to_int_def fmt_int_def takeWhile_dec_nat hd_dec_nat Let_def) linarith

text \<open>The routes in the order of registration.\<close>

lemma example_listeners:
  "ep_listeners (example_endpoint ex page assets) =
    map (\<lambda>(p, c). (p, lambda_http_listener c (count_groups p)))
      [(''/joke'', SyncCallback simple_handler), (''/class'', SyncCallback (example_simple (ex_trick ex))),
       (''/lambda'', SyncCallback (lambda_callback (ex_counter ex))), (''/who'', SyncCallback who_callback),
       (''/headers'', SyncCallback headers_callback), (''/file'', SyncCallback (file_callback (ex_file ex))),
       (''/api/#'', SyncCallback api_callback), (''/cert'', SyncCallback (cert_callback (ex_lock ex))),
       (''/async/cert'', AsyncCallback (\<lambda>E req. [])), (''/async/who'', AsyncCallback (\<lambda>E req. [])),
       (''/async/file'', AsyncCallback (\<lambda>E req. [])), (''/async/?'', AsyncCallback (\<lambda>E req. []))]"
  by (simp add: example_endpoint_def example_assets_def example_async_routes_def example_routes_def on_request_def
      on_async_request_def on_fallback_def on_asset_default_def on_asset_def endpoint_new_def Let_def)

text \<open>
  Only one pattern matches: what mongoose does with a URI that is equal to a pattern without
  wildcards and does not begin like one of those with wildcards.
\<close>

definition matches_only :: "'p mg_env \<Rightarrow> mg_str \<Rightarrow> string \<Rightarrow> bool" where
  "matches_only E uri path \<longleftrightarrow> (\<forall>p groups. fst (env_match E uri p groups) = (p = path))"

lemma find_listener_only:
  assumes "matches_only E uri path" "map_of ls path = Some l"
  shows "\<exists>groups. find_listener E uri ls = Some (l, groups)"
  using assms(2)
proof (induction ls)
  case (Cons x ls)
  then show ?case
    using assms(1) by (cases x) (auto simp: matches_only_def split_def Let_def split: if_splits)
qed simp

lemma example_sync_route:
  assumes ep: "w_ep w = example_endpoint ex page assets" and ctx: "context_of conn w = Some (k, ctx)"
    and only: "matches_only E (hm_uri msg) path"
    and l: "map_of (ep_listeners (example_endpoint ex page assets)) path =
      Some (lambda_http_listener (SyncCallback f) n)"
  shows "\<exists>groups. handle_http_message E conn msg w =
    (let ((r, ctx'), calls) = run_ops response_do (f E (request_new msg (rc_ip ctx) (rc_tls_cert ctx) groups))
           (response_new conn, ctx)
     in Some (emit calls (set_ctx k ctx' w)))"
proof -
  from find_listener_only [OF only l] ep obtain groups where
    "find_listener E (hm_uri msg) (ep_listeners (w_ep w)) = Some (lambda_http_listener (SyncCallback f) n, groups)" by auto
  then show ?thesis
    using ctx
    by (intro exI [of _ groups])
      (simp add: handle_http_message_def invoke_listener_def listener_is_async_def listener_invoke_sync_def
        lambda_http_listener_def remote_context_get_remote_ip_def remote_context_get_tls_cert_info_def split_def)
qed

text \<open>
  The route \<open>/headers\<close> of the example answers 200 with what its callback sees of the
  headers it sets: the first one under a name in other letters, none under a name not set, and
  the second one once it is there.
\<close>
lemma example_headers_route:
  assumes "w_ep w = example_endpoint ex page assets" and "context_of conn w = Some (k, ctx)"
    and "matches_only E (hm_uri msg) ''/headers''"
  shows "\<exists>w' hs. handle_http_message E conn msg w = Some w' \<and>
    w_calls w' = w_calls w @ [MgHttpReply (c_id conn) 200 hs
      (''auth is Bearer [token]'' @ [LF] @ ''fake is <not found>'' @ [LF] @ ''X-Fake is warning'')]"
proof -
  have "map_of (ep_listeners (example_endpoint ex page assets)) ''/headers'' =
      Some (lambda_http_listener (SyncCallback headers_callback) (count_groups ''/headers''))"
    by (simp add: example_listeners)
  from example_sync_route [OF assms this] obtain groups where
    run: "handle_http_message E conn msg w =
      (let ((r, ctx'), calls) = run_ops response_do (headers_callback E (request_new msg (rc_ip ctx) (rc_tls_cert ctx) groups))
             (response_new conn, ctx)
       in Some (emit calls (set_ctx k ctx' w)))" by blast
  let ?h1 = "headers_set ''Authorization'' ''Bearer [token]'' headers_new"
  let ?h2 = "headers_set ''X-Fake'' ''warning'' ?h1"
  have "headers_get_view ''authorization'' ?h1 = Some ''Bearer [token]''" "headers_get_view ''fake'' ?h1 = None"
    "headers_get_view ''x-fake'' ?h2 = Some ''warning''" by code_simp+
  then show ?thesis
    unfolding run
    by (simp add: headers_callback_def value_or_def response_send_def response_new_def response_update_headers_def
        emit_def set_ctx_def)
qed

text \<open>
  The route \<open>/file\<close> sends the head of the answer and leaves the file to the write events; the
  \<open>send\<close> after it does nothing.
\<close>

lemma example_file_route:
  assumes "w_ep w = example_endpoint ex page assets" and "context_of conn w = Some (k, ctx)"
    and "matches_only E (hm_uri msg) ''/file''" and "ex_file ex = Some content"
  shows "\<exists>w' preamble. handle_http_message E conn msg w = Some w' \<and>
    w_calls w' = w_calls w @ [MgSend (c_id conn) preamble] \<and>
    w_ctx w' k = Some (set_stream (content, False) ctx)"
proof -
  have "map_of (ep_listeners (example_endpoint ex page assets)) ''/file'' =
      Some (lambda_http_listener (SyncCallback (file_callback (ex_file ex))) (count_groups ''/file''))"
    by (simp add: example_listeners)
  from example_sync_route [OF assms(1-3) this] obtain groups where
    run: "handle_http_message E conn msg w =
      (let ((r, ctx'), calls) = run_ops response_do (file_callback (ex_file ex) E (request_new msg (rc_ip ctx) (rc_tls_cert ctx) groups))
             (response_new conn, ctx)
       in Some (emit calls (set_ctx k ctx' w)))" by blast
  show ?thesis
    unfolding run
    by (simp add: assms(4) file_callback_def response_stream_def response_send_def response_new_def
        response_update_headers_def emit_def set_ctx_def Let_def)
qed

end
