(* ===== verification/Example_Main.thy ===== *)
theory Example_Main
  imports Example_Program Server
begin

text \<open>
  \<open>main\<close> of the example program: reading the TLS material, listening, registering, and the loop
  that polls until a signal arrives. The files, the result of \<open>mg_http_listen\<close>,
  \<open>mg_strdup\<close> and \<open>std::filesystem::absolute\<close> are parameters; what goes to the standard
  streams is a string.
\<close>

subsection \<open>Starting\<close>

text \<open>The values of \<open>MG_TLS\<close> the program distinguishes.\<close>

datatype mg_tls_build = TLS_other | TLS_builtin | TLS_openssl | TLS_mbed

definition with_root :: "mg_tls_build \<Rightarrow> bool" where
  "with_root b \<longleftrightarrow> b = TLS_openssl \<or> b = TLS_mbed"

definition with_tls :: "mg_tls_build \<Rightarrow> bool" where
  "with_tls b \<longleftrightarrow> b = TLS_builtin \<or> b = TLS_openssl \<or> b = TLS_mbed"

text \<open>The content of each file that can be opened.\<close>

type_synonym files = "string \<Rightarrow> string option"

definition read_file :: "files \<Rightarrow> string \<Rightarrow> string option" where
  "read_file fs path = (case fs path of None \<Rightarrow> None | Some content \<Rightarrow> Some content)"

definition build_dir :: string where
  "build_dir = ''../../''"

definition examples_dir :: string where
  "examples_dir = build_dir @ ''../examples''"

definition main_host :: "mg_tls_build \<Rightarrow> string" where
  "main_host b = (if with_tls b then ''https://127.0.0.1:4200'' else ''http://127.0.0.1:4200'')"

datatype main_error =
    No_root_key
  | No_certificate
  | No_key
  | No_listen string

fun main_error_text :: "main_error \<Rightarrow> string" where
  "main_error_text No_root_key = ''[mgxx::server] Failed to load server'' @ [quote] @ ''s root key'' @ [LF]"
| "main_error_text No_certificate = ''[mgxx::server] Failed to load server'' @ [quote] @ ''s certificate'' @ [LF]"
| "main_error_text No_key = ''[mgxx::server] Failed to load server'' @ [quote] @ ''s key'' @ [LF]"
| "main_error_text (No_listen host) = ''[mgxx::server] Failed to listen on '' @ host @ [LF]"

text \<open>The authority where there is one, and certificate and key where TLS is built in.\<close>

definition main_material ::
  "mg_tls_build \<Rightarrow> files \<Rightarrow> main_error + (string option \<times> (string \<times> string) option)" where
  "main_material b fs =
     (let ca = (if with_root b then read_file fs (build_dir @ ''root.pem'') else None)
      in if with_root b \<and> ca = None then Inl No_root_key
         else if with_tls b then
           (case read_file fs (build_dir @ ''server.crt'') of
              None \<Rightarrow> Inl No_certificate
            | Some cert \<Rightarrow>
                (case read_file fs (build_dir @ ''server.key'') of
                   None \<Rightarrow> Inl No_key
                 | Some key \<Rightarrow> Inr (ca, Some (cert, key))))
         else Inr (ca, None))"

definition main_use_tls ::
  "strdup \<Rightarrow> string option \<times> (string \<times> string) option \<Rightarrow> tls_material \<times> heap \<Rightarrow> tls_material \<times> heap" where
  "main_use_tls dup m th =
     (case m of
        (ca, None) \<Rightarrow> th
      | (None, Some (cert, key)) \<Rightarrow> use_tls_owned dup cert key th
      | (Some ca, Some (cert, key)) \<Rightarrow> use_mtls_owned dup ca cert key th)"

text \<open>
  Up to the loop. \<open>level\<close> is \<open>MG_LL_DEBUG\<close>, \<open>wakeup\<close> the result of \<open>mg_wakeup_init\<close> and
  \<open>listen\<close> that of \<open>mg_http_listen\<close>. An early return destroys the server.
\<close>

record main_env =
  me_files :: files
  me_level :: int
  me_wakeup :: bool
  me_listen :: "mg_connection option"
  me_dup :: strdup
  me_absolute :: "string \<Rightarrow> string"

type_synonym started = "ifstream server \<times> mg_connection \<times> ifstream endpoint \<times> heap"

definition main_start ::
  "mg_tls_build \<Rightarrow> main_env \<Rightarrow> example \<Rightarrow> heap \<Rightarrow> (main_error + started) \<times> server_call list" where
  "main_start b M ex h =
     (let (s0, calls0) = server_new_logger (me_level M) 8192 (me_wakeup M)
      in case main_material b (me_files M) of
           Inl e \<Rightarrow> (Inl e, calls0 @ server_stop s0)
         | Inr m \<Rightarrow>
             (let (s1, http, calls1) = listen_http (me_listen M) (main_host b) s0
              in case http of
                   None \<Rightarrow> (Inl (No_listen (main_host b)), calls0 @ calls1 @ server_stop s1)
                 | Some (conn, ep) \<Rightarrow>
                     let (t, h') = main_use_tls (me_dup M) m (ep_tls ep, h);
                         ep1 = example_async_routes (example_routes ex (ep\<lparr>ep_tls := t\<rparr>));
                         ep2 = example_assets (me_absolute M (examples_dir @ ''/simple.html''))
                                 (me_absolute M (examples_dir @ ''/assets'')) ep1
                     in (Inr (s1, conn, ep2, h'), calls0 @ calls1)))"

subsection \<open>Running\<close>

text \<open>\<open>signal_handler\<close>: the message, and the value of \<open>is_running\<close> afterwards.\<close>

definition signal_handler :: "int \<Rightarrow> string \<times> bool" where
  "signal_handler sig = (''[mgxx::server] shutting down...'' @ [LF], False)"

text \<open>\<open>running i\<close> is the value of \<open>is_running\<close> the loop reads before its poll number \<open>i\<close>.\<close>

partial_function (option) main_loop ::
  "'p server \<Rightarrow> (nat \<Rightarrow> bool) \<Rightarrow> nat \<Rightarrow> server_call list option" where
  "main_loop s running i =
     (if running i then Option.bind (main_loop s running (Suc i)) (\<lambda>calls. Some (server_poll 100 s @ calls))
      else Some [])"

text \<open>The exit code, the standard error stream and the calls to mongoose.\<close>

definition example_main ::
  "mg_tls_build \<Rightarrow> main_env \<Rightarrow> example \<Rightarrow> heap \<Rightarrow> (nat \<Rightarrow> bool) \<Rightarrow> (int \<times> string \<times> server_call list) option" where
  "example_main b M ex h running =
     (case main_start b M ex h of
        (Inl e, calls) \<Rightarrow> Some (1, main_error_text e, calls)
      | (Inr (s, conn, ep, h'), calls) \<Rightarrow>
          (case main_loop s running 0 of
             None \<Rightarrow> None
           | Some polls \<Rightarrow> Some (0, '''', calls @ polls @ server_stop s)))"

subsection \<open>What it does\<close>

lemma main_loop_stops:
  assumes "\<forall>j < n. running (i + j)" "\<not> running (i + n)"
  shows "main_loop s running i = Some (replicate n (MgMgrPoll 100))"
  using assms
proof (induction n arbitrary: i)
  case 0
  then show ?case by (simp add: main_loop.simps)
next
  case (Suc n)
  from Suc.prems(1) have "running i" by (metis add.right_neutral zero_less_Suc)
  moreover have "main_loop s running (Suc i) = Some (replicate n (MgMgrPoll 100))"
    using Suc.prems by (intro Suc.IH) (auto simp flip: add_Suc_right)
  ultimately show ?case by (simp add: main_loop.simps [of s running i] server_poll_def)
qed

lemma main_loop_ends:
  assumes "main_loop s running i = Some calls"
  shows "\<exists>n \<ge> i. \<not> running n"
proof (rule main_loop.raw_induct [where P = "\<lambda>s running i calls. \<exists>n \<ge> i. \<not> running n", OF _ assms])
  fix f :: "'p server \<Rightarrow> (nat \<Rightarrow> bool) \<Rightarrow> nat \<Rightarrow> server_call list option" and s :: "'p server" and running i calls
  assume IH: "\<And>s running i calls. f s running i = Some calls \<Longrightarrow> \<exists>n \<ge> i. \<not> running n"
    and eq: "(if running i then Option.bind (f s running (Suc i)) (\<lambda>calls. Some (server_poll 100 s @ calls))
       else Some []) = Some calls"
  show "\<exists>n \<ge> i. \<not> running n"
  proof (cases "running i")
    case True
    with eq obtain calls' where "f s running (Suc i) = Some calls'" by (auto split: bind_splits)
    from IH [OF this] show ?thesis using Suc_leD by blast
  next
    case False
    then show ?thesis by blast
  qed
qed

text \<open>
  \<open>main\<close> returns 1 when it cannot start, and otherwise 0 once a signal has come, after one poll for
  each time it saw none; without a signal it does not return.
\<close>

lemma example_main_returns:
  "example_main b M ex h running =
     (case main_start b M ex h of
        (Inl e, calls) \<Rightarrow> Some (1, main_error_text e, calls)
      | (Inr (s, conn, ep, h'), calls) \<Rightarrow>
          if \<forall>n. running n then None
          else Some (0, '''', calls @ replicate (LEAST n. \<not> running n) (MgMgrPoll 100) @ [MgMgrFree]))"
proof -
  have "main_loop s running 0 =
      (if \<forall>n. running n then None else Some (replicate (LEAST n. \<not> running n) (MgMgrPoll 100)))" for s :: "ifstream server"
  proof (cases "\<forall>n. running n")
    case True
    with main_loop_ends [of s running 0] show ?thesis by (cases "main_loop s running 0") auto
  next
    case False
    let ?n = "LEAST n. \<not> running n"
    from False obtain n where "\<not> running n" by blast
    then have stop: "\<not> running (0 + ?n)" unfolding add_0 by (rule LeastI)
    have "\<forall>j < ?n. running (0 + j)" unfolding add_0 using not_less_Least by blast
    from main_loop_stops [OF this stop] have "main_loop s running 0 = Some (replicate ?n (MgMgrPoll 100))" .
    with False show ?thesis by simp
  qed
  note loop = this
  show ?thesis
  proof (cases "main_start b M ex h")
    case (Pair r calls)
    show ?thesis
    proof (cases r)
      case (Inl e)
      then show ?thesis by (simp add: example_main_def Pair)
    next
      case (Inr x)
      obtain s conn ep h' where "x = (s, conn, ep, h')" by (metis prod_cases4)
      with Inr show ?thesis by (simp add: example_main_def Pair loop server_stop_def)
    qed
  qed
qed

text \<open>Every file the build needs has to be there, and mongoose has to listen.\<close>

lemma main_start_fails_iff:
  "(\<exists>e. fst (main_start b M ex h) = Inl e) \<longleftrightarrow>
     (with_root b \<and> me_files M ''../../root.pem'' = None) \<or>
     (with_tls b \<and> (me_files M ''../../server.crt'' = None \<or> me_files M ''../../server.key'' = None)) \<or>
     me_listen M = None"
proof -
  have material: "(\<exists>e. main_material b (me_files M) = Inl e) \<longleftrightarrow>
     (with_root b \<and> me_files M ''../../root.pem'' = None) \<or>
     (with_tls b \<and> (me_files M ''../../server.crt'' = None \<or> me_files M ''../../server.key'' = None))"
    by (auto simp: main_material_def read_file_def build_dir_def Let_def split: option.splits)
  have start: "(\<exists>e. fst (main_start b M ex h) = Inl e) \<longleftrightarrow> (\<exists>e. main_material b (me_files M) = Inl e) \<or> me_listen M = None"
    by (auto simp: main_start_def listen_http_def Let_def split: prod.splits sum.splits option.splits)
  show ?thesis unfolding start material by (simp only: disj_assoc)
qed

lemma registration_tls [simp]:
  "ep_tls (on_request path f ep) = ep_tls ep" "ep_tls (on_async_request path g ep) = ep_tls ep"
  "ep_tls (on_fallback f ep) = ep_tls ep" "ep_tls (on_asset path asset mime_type hs ep) = ep_tls ep"
  by (simp_all add: on_request_def on_async_request_def on_fallback_def on_asset_def)

lemma example_routes_tls [simp]:
  "ep_tls (example_routes ex ep) = ep_tls ep" "ep_tls (example_async_routes ep) = ep_tls ep"
  by (simp_all only: example_routes_def example_async_routes_def Let_def registration_tls)

lemma example_assets_tls [simp]: "ep_tls (example_assets page assets ep) = ep_tls ep"
  by (simp add: example_assets_def on_asset_default_def)

text \<open>
  A TLS connection is set up with the certificate whenever the build has TLS, and asks the
  client for one exactly on the builds with an authority, as long as no duplication fails.
\<close>

lemma main_client_auth:
  assumes "fst (main_start b M ex h) = Inr (s, lsn, ep, h')" and "c_is_tls conn"
    and dup: "\<forall>h s. s \<noteq> [] \<longrightarrow> 0 < ms_len (fst (me_dup M h s))" and files: "\<forall>p. me_files M p \<noteq> Some []"
  shows "if with_tls b
    then \<exists>opts. handle_secure (ep_tls ep) conn = [MgTlsInit (c_id conn) opts] \<and> 0 < ms_len (to_cert opts) \<and>
      (0 < ms_len (to_ca opts) \<longleftrightarrow> with_root b)
    else handle_secure (ep_tls ep) conn = []"
proof -
  from assms(1) obtain m where m: "main_material b (me_files M) = Inr m"
    and tls: "ep_tls ep = fst (main_use_tls (me_dup M) m (tls_material_new, h))"
    by (auto simp: main_start_def listen_http_def endpoint_setup_def endpoint_new_def Let_def split_def
        split: prod.splits sum.splits option.splits)
  have new: "ms_len mg_null = 0" by (simp add: mg_null_def)
  have nonempty: "me_files M p = Some s \<Longrightarrow> s \<noteq> []" for p s using files by blast
  have pos: "0 < ms_len (fst (me_dup M h s))" "ms_len (fst (me_dup M h s)) \<noteq> 0" if "s \<noteq> []" for h s
    using dup [rule_format, OF that, of h] by auto
  note use_tls = main_use_tls_def use_tls_owned_def use_mtls_owned_def split_def handle_secure_def is_mtls_def
    tls_material_new_def Let_def
  have "(m = (None, None) \<and> \<not> with_tls b) \<or>
    (\<exists>cert key. m = (None, Some (cert, key)) \<and> cert \<noteq> [] \<and> key \<noteq> [] \<and> with_tls b \<and> \<not> with_root b) \<or>
    (\<exists>ca cert key. m = (Some ca, Some (cert, key)) \<and> ca \<noteq> [] \<and> cert \<noteq> [] \<and> key \<noteq> [] \<and> with_tls b \<and> with_root b)"
    using m
    by (auto simp: main_material_def read_file_def Let_def with_root_def with_tls_def
        dest!: nonempty split: option.splits if_splits)
  then consider (plain) "m = (None, None)" "\<not> with_tls b"
    | (tls) cert key where "m = (None, Some (cert, key))" "cert \<noteq> []" "key \<noteq> []" "with_tls b" "\<not> with_root b"
    | (mtls) ca cert key where "m = (Some ca, Some (cert, key))" "ca \<noteq> []" "cert \<noteq> []" "key \<noteq> []" "with_tls b" "with_root b"
    by blast
  then show ?thesis
    unfolding tls by cases (simp_all add: use_tls assms(2) pos new)
qed

text \<open>
  When the authority cannot be duplicated its length is 0, and clients are accepted without a
  certificate although one was asked for.
\<close>

lemma lost_authority_accepts_anyone:
  "\<exists>dup. strdup_spec dup \<and>
    (\<exists>cert key. \<forall>conn. c_is_tls conn \<longrightarrow>
      handle_secure (fst (use_mtls_owned dup ''ca'' ''cert'' ''key'' (tls_material_new, Map.empty))) conn =
        [MgTlsInit (c_id conn) \<lparr>to_ca = mg_null, to_cert = cert, to_key = key\<rparr>])"
proof -
  define dup :: strdup where "dup h s =
    (if s = ''cert'' \<and> h 10 = None then (\<lparr>ms_buf = 10, ms_len = of_nat (length s)\<rparr>, h(10 \<mapsto> s))
     else if s = ''key'' \<and> h 20 = None then (\<lparr>ms_buf = 20, ms_len = of_nat (length s)\<rparr>, h(20 \<mapsto> s))
     else (mg_null, h))" for h s
  have "strdup_spec dup" by (auto simp: strdup_spec_def dup_def)
  then show ?thesis
    by (intro exI [of _ dup] conjI exI [of _ "\<lparr>ms_buf = 10, ms_len = 4\<rparr>"] exI [of _ "\<lparr>ms_buf = 20, ms_len = 3\<rparr>"])
      (simp_all add: use_mtls_owned_def dup_def handle_secure_def is_mtls_def tls_material_new_def mg_null_def)
qed

end
