(* ===== verification/Callables.thy ===== *)
theory Callables
  imports Example_Main
begin

text \<open>
  \<open>supplier.hpp\<close>, \<open>listener.hpp\<close> and \<open>internal/logger_listener.hpp\<close>: the wrappers that own
  a callable and hide its type behind a virtual function. The closure \<open>'f\<close> may change when it
  is called; its call operator is user code and a parameter. Elsewhere the development calls a
  producer directly; the lemmas show that the wrapper between makes no difference.
\<close>

subsection \<open>Suppliers\<close>

record 'f lambda_supplier =
  ls_callback :: 'f

definition lambda_supplier_new :: "'f \<Rightarrow> 'f lambda_supplier" where
  "lambda_supplier_new callback = \<lparr>ls_callback = callback\<rparr>"

definition lambda_supplier_get :: "('f \<Rightarrow> 'a \<times> 'f) \<Rightarrow> 'f lambda_supplier \<Rightarrow> 'a \<times> 'f lambda_supplier" where
  "lambda_supplier_get call s =
     (let (x, callback) = call (ls_callback s) in (x, s\<lparr>ls_callback := callback\<rparr>))"

text \<open>The environment in which the context's producer is a \<open>lambda_stream_producer\<close>.\<close>

definition wrapped_env :: "'f mg_env \<Rightarrow> 'f lambda_supplier mg_env" where
  "wrapped_env E =
     \<lparr>env_mem = env_mem E, env_match = env_match E, env_get_header = env_get_header E,
      env_wakeup = env_wakeup E, env_mgr_alive = env_mgr_alive E, env_io_size = env_io_size E,
      env_get = lambda_supplier_get (env_get E), env_inet_ntop = env_inet_ntop E,
      env_ntohs = env_ntohs E, env_timegm = env_timegm E\<rparr>"

definition wrapped_context :: "'f remote_context \<Rightarrow> 'f lambda_supplier remote_context" where
  "wrapped_context ctx =
     \<lparr>rc_endpoint = rc_endpoint ctx, rc_ip = rc_ip ctx, rc_tls_cert = rc_tls_cert ctx,
      rc_stream = map_option lambda_supplier_new (rc_stream ctx)\<rparr>"

lemma lambda_supplier_get_new:
  "lambda_supplier_get call (lambda_supplier_new f) = apsnd lambda_supplier_new (call f)"
  by (simp add: lambda_supplier_get_def lambda_supplier_new_def split_def apsnd_def map_prod_def Let_def)

lemma wrapped_pump_stream:
  "pump_stream (wrapped_env E) conn (wrapped_context ctx) = apfst wrapped_context (pump_stream E conn ctx)"
proof (cases "rc_stream ctx")
  case None
  then show ?thesis by (simp add: pump_stream_def wrapped_context_def)
next
  case (Some p)
  obtain c p' where "env_get E p = (c, p')" by fastforce
  with Some show ?thesis
    by (auto simp: pump_stream_def wrapped_context_def wrapped_env_def lambda_supplier_get_new split: option.split)
qed

lemma wrapped_pump_run:
  "pump_run (wrapped_env E) conn n (wrapped_context ctx) = apfst wrapped_context (pump_run E conn n ctx)"
proof (induction n arbitrary: ctx)
  case 0
  show ?case by simp
next
  case (Suc n)
  obtain ctx1 calls1 where "pump_stream E conn ctx = (ctx1, calls1)" by fastforce
  then show ?case by (simp add: wrapped_pump_stream Suc.IH split_def Let_def)
qed

lemma wrapped_produced: "produced (wrapped_env E) n (lambda_supplier_new p) = produced E n p"
proof (induction n arbitrary: p)
  case 0
  show ?case by simp
next
  case (Suc n)
  obtain c p' where "env_get E p = (c, p')" by fastforce
  with Suc.IH show ?case by (simp add: wrapped_env_def lambda_supplier_get_new split: option.split)
qed

subsection \<open>Listeners\<close>

text \<open>
  A call of the listener changes the closure and what the callback can reach, here the text
  written so far. \<open>'args\<close> is the tuple of the arguments.
\<close>

record 'f lambda_listener =
  ll_callback :: 'f

definition lambda_listener_new :: "'f \<Rightarrow> 'f lambda_listener" where
  "lambda_listener_new callback = \<lparr>ll_callback = callback\<rparr>"

definition lambda_listener_invoke ::
  "('args \<Rightarrow> 'f \<times> 'world \<Rightarrow> 'f \<times> 'world) \<Rightarrow> 'args \<Rightarrow> 'f lambda_listener \<times> 'world \<Rightarrow> 'f lambda_listener \<times> 'world" where
  "lambda_listener_invoke call args lw =
     (let (callback, w) = call args (ll_callback (fst lw), snd lw)
      in ((fst lw)\<lparr>ll_callback := callback\<rparr>, w))"

text \<open>The logger's callback in the example, which captures nothing and appends to \<open>std::cout\<close>.\<close>

definition example_log :: "string \<Rightarrow> unit \<times> string \<Rightarrow> unit \<times> string" where
  "example_log msg fw = (fst fw, snd fw @ ''[mgxx::server] '' @ msg)"

lemma example_log_fold:
  "snd (fold (lambda_listener_invoke example_log) out (l, cout)) =
     cout @ concat (map (\<lambda>m. ''[mgxx::server] '' @ m) out)"
  by (induction out arbitrary: l cout)
    (simp_all add: lambda_listener_invoke_def example_log_def del: append.simps)

lemma cut_log_line:
  "LF \<notin> set s \<Longrightarrow> length acc + length s < n \<Longrightarrow> cut_log n acc (s @ [LF]) = ([acc @ s @ [LF]], [])"
  by (induction s arbitrary: acc) auto

text \<open>
  A line that fits into the logger's buffer comes out of the example in one piece, after the
  prefix and whatever was already there, and leaves the buffer empty for the next.
\<close>

lemma example_log_line:
  assumes "logger_ready l" "logger_pending l = []" "LF \<notin> set line" "length line < length (lg_buffer l)"
  shows "\<exists>l' out. log_string (line @ [LF]) l = Some (l', out) \<and> logger_ready l' \<and> logger_pending l' = [] \<and>
    snd (fold (lambda_listener_invoke example_log) out (lambda_listener_new (), cout)) =
      cout @ ''[mgxx::server] '' @ line @ [LF]"
proof -
  have "cut_log (length (lg_buffer l)) (logger_pending l) (line @ [LF]) = ([line @ [LF]], [])"
    using cut_log_line [OF assms(3), of "[]"] assms(2,4) by simp
  with log_string_eq_cut [OF assms(1), of "line @ [LF]"] show ?thesis
    by (auto simp: example_log_fold)
qed

end
