(* ===== verification/Spec2Isabelle.thy ===== *)
theory Spec2Isabelle
  imports System_Properties Dispatch_Properties Event_Properties Component_Properties
    Channel_Properties Races Answer_Properties Fairness Ownership_Properties Request_Copies
    Callables
begin

text \<open>
  \<^bold>\<open>mongoose-cpp (mgxx), a C++ interface to the mongoose web server.\<close>

  \<^bold>\<open>The program.\<close> A \<open>server\<close> owns the event manager of mongoose and any number of
  endpoints. An endpoint (\<open>http/endpoint.cpp\<close>) has routes (listeners and assets, in hash
  maps from patterns), TLS material, and two tables that map a connection and a request to
  the answer a worker thread owes: \<open>m_pending_responses\<close> and \<open>m_pending_streams\<close>. mongoose
  calls the endpoint for each event of a connection; accepted connections have a
  \<open>remote_context\<close> of their own. A synchronous handler answers at once or leaves a producer
  in the context that write events ask for chunks. An asynchronous handler gets an
  \<open>async_response\<close>, which a worker answers later by \<open>send\<close> or \<open>stream\<close>; the worker wakes
  the event loop with the request's number, and the loop looks the answer up and sends it. A
  streamed answer hands over one chunk at a time through the atomic state of an
  \<open>async_stream\<close>.

  \<^bold>\<open>The theories and the code they model\<close>, all paths under src/:
  \<^item> \<open>Prelude\<close>: integer types, hint collections, C strings, decimal and hexadecimal
    formatting, the bytes of a \<open>size_t\<close>.
  \<^item> \<open>Interfaces\<close>: the locales \<open>dict\<close> and \<open>counted_dict\<close> (maps), \<open>oneshot\<close> (objects that
    act once), \<open>transition_system\<close> and \<open>simulation\<close>; \<open>Fair_Runs\<close>: infinite runs, weak
    fairness and the locale \<open>fair_progress\<close>.
  \<^item> \<open>UMap\<close>: \<open>std::unordered_map\<close> as an association list in iteration order, and as
    buckets; provides \<open>dict\<close>.
  \<^item> \<open>Mongoose\<close>: the boundary. What the code passes to and gets from mongoose, the TLS
    libraries and the system are records; calls made for their effect are values of
    \<open>mg_call\<close>; results of external functions are fields of \<open>mg_env\<close>, a parameter
    everywhere.
  \<^item> \<open>Common\<close> (include/mgxx/http/internal/common.hpp, src/http/common.cpp): status codes,
    reason phrases, the head of a streamed answer, printing of addresses.
  \<^item> \<open>Headers\<close> (http/headers.hpp, .cpp): the case-insensitive header map, its FNV-1a hash.
  \<^item> \<open>Request\<close> (http/request.cpp, http/async_request.cpp): views into mongoose's buffer and
    their copy for a worker. \<open>Request_Copies\<close>: the block a copy owns, from \<open>to_async\<close> to
    the destructor.
  \<^item> \<open>Tls_Cert\<close> (tls.hpp, \<open>remote_context::setup\<close>): the record of a peer certificate, for
    both backends. \<open>Tls_Material\<close>: the \<open>use_tls\<close> overloads, the destructor of the endpoint
    and the heap they share.
  \<^item> \<open>Async_Stream\<close>, \<open>Async_Response\<close>, \<open>Remote_Context\<close>, \<open>Response\<close>: the classes of
    the same names.
  \<^item> \<open>Endpoint\<close>: the endpoint's members and the registration of routes, listeners, the
    capture count of a pattern. \<open>World\<close>: the endpoint with the stores of all objects held by
    pointer. \<open>Handlers\<close>: one function per event handler of http/endpoint.cpp and per entry
    point of mongoose (\<open>mg_call_handler\<close>).
  \<^item> \<open>Server\<close> (server.cpp): start, stop, listen, poll, the log buffer.
  \<^item> \<open>System\<close>: the whole program as the step relation \<open>sys_step\<close> over accepted
    connections, events, closes, worker operations, registrations and rehashes.
  \<^item> \<open>Small_Steps\<close>: the worker's operations cut at the accesses other threads can see.
    \<open>Channel\<close>: a worker's streaming loop against the event loop, as \<open>run_step\<close>.
    \<open>Answer\<close>: a worker's \<open>send\<close> against the event loop, as \<open>ask_step\<close>.
  \<^item> \<open>File_Stream\<close>, \<open>Example_Program\<close> and \<open>Example_Main\<close>: the example program,
    examples/simple/src/main.cpp: the file routes, the other routes, and \<open>main\<close> with its
    early returns for each TLS build. Files, \<open>mg_http_listen\<close> and
    \<open>std::filesystem::absolute\<close> are parameters; paths are those of the build that is not for
    Windows.
  \<^item> \<open>Callables\<close> (supplier.hpp, listener.hpp): the wrappers that own a callable.

  \<^bold>\<open>How state corresponds.\<close> A class is a record with the members in their order; a pointer
  is a reference into a store of \<open>world\<close>, and using a null, dangling or mistyped pointer is
  the outcome \<open>None\<close> of a handler. Machine integers are words and wrap. What reaches the
  client is the list \<open>w_calls\<close>, without the wakeups (\<open>net_calls\<close>).

  \<^bold>\<open>What is proved.\<close>
  \<^item> \<open>Invariants\<close>, \<open>Handler_Safety\<close>, \<open>Lifecycle_Safety\<close>, \<open>System_Safety\<close>: the tables
    stay consistent with the objects (\<open>world_inv\<close>, \<open>sys_inv\<close>), each handler returns in a
    consistent world, and \<open>System_Properties\<close> draws the consequences for all reachable
    states: no handler meets a bad pointer, connections do not disturb each other, a close
    leaves nothing behind.
  \<^item> \<open>Request_Ids\<close>: until the counter of requests wraps, no number is given twice and no
    request is in both tables.
  \<^item> \<open>Dispatch_Properties\<close>: which route a request takes, with the order of the hash maps
    left open; \<open>Event_Properties\<close>: polls, writes and synchronous streams;
    \<open>Async_Flow\<close>: the conversations of asynchronous answers from request to last byte.
  \<^item> \<open>Channel\<close>, \<open>Channel_Properties\<close>: in every interleaving the streaming loop of the
    README refines a channel that delivers chunks in order (\<open>channel_step\<close>), and it can
    always come to its end while the connection is open and wakeups succeed;
    \<open>Channel_Close\<close>: whether the worker hears of a close. \<open>Answer\<close>, \<open>Answer_Properties\<close>:
    in every interleaving of \<open>send\<close> with the loop the client gets at most one answer
    (\<open>promise_step\<close>), and can always still get it while the connection is open and wakeups
    succeed. \<open>Races\<close>: the small steps add up to the operations, and what goes wrong when the
    loop runs between them.
  \<^item> \<open>Fairness\<close>: as long as the connection stays open and wakeups succeed, in every fair run
    of worker and loop the answer of \<open>send\<close> and, if the buffer gets room again and again, a
    whole streamed answer do arrive, and nothing happens after that.
  \<^item> \<open>Ownership\<close>, \<open>Ownership_Properties\<close>: each context belongs to one connection and each
    certificate to one context; what a connection owns is freed with it, and destroying the
    server, which closes every connection (\<open>close_all\<close>, the effect mongoose documents for
    \<open>mg_mgr_free\<close>), leaves nothing in the endpoint.
  \<^item> \<open>Component_Properties\<close>: the header map, requests and their copies, certificates, TLS
    material, the log buffer. \<open>Request_Copies\<close>: copies read what the request read until they
    are destroyed, and are freed once.

  Where the code misbehaves the theorem shows the misbehaviour, with the environment in
  which it occurs.

  \<^bold>\<open>Loops and bounds.\<close> \<open>async_stream::wait\<close> may not return and is a partial function over
  the values its reads see; \<open>None\<close> is a wait that never ends. Every other loop is a total
  function. \<open>run_steps\<close> takes a number of steps: five complete every operation of a response
  and four every operation of a stream, whatever the branch (\<open>response_steps\<close>,
  \<open>stream_send_steps\<close>). \<open>produced\<close> and \<open>pump_run\<close> count calls of a producer, one more than
  it has chunks.

  \<^bold>\<open>Assumptions.\<close> The event loop runs one handler at a time. Accesses to atomics are
  sequentially consistent; writes to other members between two atomic accesses are one step.
  A user's callback is the list of operations it performs for a request. A connection has
  one number for its life, and mongoose delivers a wakeup with the payload it was given. A body
  is shorter than \<open>2^31\<close> bytes, as mongoose reads the precision of \<open>%.*s\<close> as an \<open>int\<close>.
  Fairness is weak: an action that stays possible is taken at some time.
  In \<open>Channel\<close> and \<open>Answer\<close> nothing reaches a connection after its close, and one worker holds
  the stream or the response.

  \<^bold>\<open>Not modelled.\<close> mongoose itself (parsing, matching, sockets), OpenSSL and mbedTLS beyond
  the results the code reads, the operating system and its files and signals, which are
  parameters; build files and assets; memory orders weaker than sequential consistency;
  exceptions of the standard library such as \<open>std::bad_alloc\<close>.

  Also outside the model: an endpoint that numbers more than \<open>2^64\<close> requests, and every
  interleaving of several workers on one response, whose unsynchronised writes are a data race;
  \<open>two_senders\<close> in \<open>Races\<close> shows what two of them can do even so.
\<close>

end
